theory Spec2Isabelle
  imports Main "HOL-Library.Word" "HOL-Library.Char_ord" "HOL-Library.List_Lexorder"
begin

unbundle bit_operations_syntax

section \<open>The netlist updater of pcbnew (board_netlist_updater.cpp)\<close>

text \<open>
  A shallow embedding of \<^verbatim>\<open>BOARD_NETLIST_UPDATER\<close>. Objects the C++ code reaches through
  pointers are reached here through handles: a footprint is either the i-th footprint of
  the board or the k-th footprint staged in the commit, a pad is a footprint handle together
  with its index in the footprint's pad list, and a net is referred to by its (unique) net
  name, the empty name being the unconnected net of code 0. Geometry (positions, bounding
  boxes) and the undo snapshots of the commit (Clone, Modified, Modify, Removed) change no
  field modelled here and are left out. Messages are the English format strings with their
  arguments filled in, without the quotation marks and without translation or unescaping.
\<close>

subsection \<open>Data model\<close>

datatype severity = RPT_SEVERITY_INFO | RPT_SEVERITY_ACTION | RPT_SEVERITY_WARNING | RPT_SEVERITY_ERROR

type_synonym report = "(severity \<times> string) list"

record component_net =
  cn_pinName :: string
  cn_netName :: string
  cn_pinFunction :: string
  cn_pinType :: string

record component =
  c_reference :: string
  c_value :: string
  c_fpid :: string
  c_path :: string
  c_properties :: "(string \<times> string) list"
  c_nets :: "component_net list"

type_synonym netlist = "component list"

record pad =
  pad_name :: string
  pad_pinFunction :: string
  pad_pinType :: string
  pad_netname :: string
  pad_onCopper :: bool
  pad_locked :: bool
  pad_ratsnestVisible :: bool

record footprint =
  fp_reference :: string
  fp_value :: string
  fp_fpid :: string
  fp_path :: string
  fp_properties :: "(string \<times> string) list"
  fp_attributes :: "32 word"
  fp_locked :: bool
  fp_pads :: "pad list"

record netinfo =
  net_name :: string
  net_code :: int
  net_isCurrent :: bool

datatype fp_ref = OnBoard nat | Staged nat

type_synonym pad_ref = "fp_ref \<times> nat"

record zone =
  zone_netname :: string
  zone_onCopper :: bool
  zone_isRuleArea :: bool
  zone_connectedPads :: "pad_ref list"

record track =
  track_isVia :: bool
  track_netname :: string

record board =
  b_footprints :: "footprint list"
  b_nets :: "netinfo list"
  b_zones :: "zone list"
  b_tracks :: "track list"

text \<open>
  Modelled from the spec: the commit (\<^verbatim>\<open>BOARD_COMMIT\<close>, not in src) is "an ordered list of
  pending mutations (add, remove, modify-with-snapshot) that is either applied atomically
  or discarded". Added footprints and nets are staged and reach the board only at Push;
  removed footprints stay in the board's list until Push.
\<close>

record commit =
  c_addedFootprints :: "footprint list"
  c_removedFootprints :: "nat list"
  c_addedNets :: "netinfo list"

record options =
  m_deleteSinglePadNets :: bool
  m_deleteUnusedComponents :: bool
  m_isDryRun :: bool
  m_replaceFootprints :: bool
  m_lookupByTimestamp :: bool
  m_warnForNoNetPads :: bool

text \<open>
  The frame (\<^verbatim>\<open>PCB_EDIT_FRAME\<close>, not in src) is a parameter: its footprint library loader,
  what \<^verbatim>\<open>ExchangeFootprint\<close> carries over from the existing footprint to the new one (the
  result is the new footprint as it is staged), and the two settings \<^verbatim>\<open>addNewComponent\<close>
  reads.
\<close>

record frame =
  LoadFootprint :: "string \<Rightarrow> footprint option"
  ExchangeFootprint :: "footprint \<Rightarrow> footprint \<Rightarrow> footprint"
  m_ShowGlobalRatsnest :: bool
  m_AddUnlockedPads :: bool

record updater =
  m_board :: board
  m_commit :: commit
  m_report :: report
  m_reportTail :: report
  m_padNets :: "pad_ref \<rightharpoonup> string"
  m_padPinFunctions :: "pad_ref \<rightharpoonup> string"
  m_oldToNewNets :: "string \<rightharpoonup> string"
  m_addedNets :: "string \<rightharpoonup> netinfo"
  m_zoneConnectionsCache :: "nat \<rightharpoonup> pad_ref list"
  m_warningCount :: nat
  m_errorCount :: nat
  m_newFootprintsCount :: nat

text \<open>
  Modelled from the spec: the bits of the footprint attribute mask (footprint.h, not in src),
  "a fabrication-attribute bitmask (board-only, excluded-from-BOM flags among others)".
\<close>

definition FP_EXCLUDE_FROM_BOM :: "32 word" where
  "FP_EXCLUDE_FROM_BOM = 8"

definition FP_BOARD_ONLY :: "32 word" where
  "FP_BOARD_ONLY = 16"

text \<open>The constructor: an updater for a board, nothing staged, empty caches.\<close>

definition new_commit :: commit where
  "new_commit = \<lparr>c_addedFootprints = [], c_removedFootprints = [], c_addedNets = []\<rparr>"

definition new_updater :: "board \<Rightarrow> updater" where
  "new_updater b =
     \<lparr>m_board = b, m_commit = new_commit, m_report = [], m_reportTail = [],
      m_padNets = Map.empty, m_padPinFunctions = Map.empty, m_oldToNewNets = Map.empty,
      m_addedNets = Map.empty, m_zoneConnectionsCache = Map.empty,
      m_warningCount = 0, m_errorCount = 0, m_newFootprintsCount = 0\<rparr>"

definition default_options :: options where
  "default_options =
     \<lparr>m_deleteSinglePadNets = True, m_deleteUnusedComponents = False, m_isDryRun = False,
      m_replaceFootprints = True, m_lookupByTimestamp = False, m_warnForNoNetPads = False\<rparr>"

subsection \<open>Collaborators outside src\<close>

text \<open>
  Modelled from the spec: a property map "may carry control flags"; \<^verbatim>\<open>count(key)\<close> of the
  C++ map is membership of the key, and two maps differ when their sets of entries differ.
\<close>

definition has_property :: "(string \<times> string) list \<Rightarrow> string \<Rightarrow> bool" where
  "has_property ps k = (k \<in> set (map fst ps))"

definition same_properties :: "(string \<times> string) list \<Rightarrow> (string \<times> string) list \<Rightarrow> bool" where
  "same_properties ps qs = (set ps = set qs)"

text \<open>
  Modelled from the spec: \<^verbatim>\<open>COMPONENT::GetNet(pinName)\<close> (pcb_netlist.h, not in src) looks
  "up the matching named pin on the Component"; when absent it yields the empty net, which
  is not valid. A net is valid when its pin name is not empty.
\<close>

definition emptyNet :: component_net where
  "emptyNet = \<lparr>cn_pinName = [], cn_netName = [], cn_pinFunction = [], cn_pinType = []\<rparr>"

definition GetNet :: "component \<Rightarrow> string \<Rightarrow> component_net" where
  "GetNet c pin = (case find (\<lambda>n. cn_pinName n = pin) (c_nets c) of None \<Rightarrow> emptyNet | Some n \<Rightarrow> n)"

definition IsValid :: "component_net \<Rightarrow> bool" where
  "IsValid n = (cn_pinName n \<noteq> [])"

text \<open>
  Modelled from the spec: the net registry (netinfo.h, not in src) offers "lookup-by-name,
  full iteration, add/remove". \<^verbatim>\<open>SetIsCurrent\<close> through a net pointer marks the registry's
  net of that name.
\<close>

definition FindNet :: "board \<Rightarrow> string \<Rightarrow> netinfo option" where
  "FindNet b name = find (\<lambda>n. net_name n = name) (b_nets b)"

fun markCurrent :: "string \<Rightarrow> netinfo list \<Rightarrow> netinfo list" where
  "markCurrent name [] = []"
| "markCurrent name (n # ns) =
     (if net_name n = name then n\<lparr>net_isCurrent := True\<rparr> # ns else n # markCurrent name ns)"

definition SetIsCurrent :: "string \<Rightarrow> board \<Rightarrow> board" where
  "SetIsCurrent name b = b\<lparr>b_nets := markCurrent name (b_nets b)\<rparr>"

definition RemoveUnusedNets :: "board \<Rightarrow> board" where
  "RemoveUnusedNets b = b\<lparr>b_nets := filter net_isCurrent (b_nets b)\<rparr>"

text \<open>A net made by \<^verbatim>\<open>new NETINFO_ITEM( m_board, netName )\<close>: no code yet, current.\<close>

definition new_NETINFO_ITEM :: "string \<Rightarrow> netinfo" where
  "new_NETINFO_ITEM name = \<lparr>net_name = name, net_code = - 1, net_isCurrent = True\<rparr>"

text \<open>
  Modelled from the spec: wxString's case-insensitive comparison of reference designators
  ("reference designator (string, case-insensitive-comparable)").
\<close>

definition lower_char :: "char \<Rightarrow> char" where
  "lower_char c =
     (if CHR ''A'' \<le> c \<and> c \<le> CHR ''Z'' then char_of (of_char c + (32::nat)) else c)"

definition CmpNoCase :: "string \<Rightarrow> string \<Rightarrow> bool" where
  "CmpNoCase a b = (map lower_char a = map lower_char b)"

text \<open>
  Modelled from the spec: the netlist's lookups (pcb_netlist.h, not in src), used by the
  sweep over "any board Footprint with no matching component".
\<close>

definition GetComponentByReference :: "netlist \<Rightarrow> string \<Rightarrow> component option" where
  "GetComponentByReference nl r = find (\<lambda>c. c_reference c = r) nl"

definition GetComponentByPath :: "netlist \<Rightarrow> string \<Rightarrow> component option" where
  "GetComponentByPath nl p = find (\<lambda>c. c_path c = p) nl"

text \<open>The decimal digits of a counter, for the summary line.\<close>

fun show_nat :: "nat \<Rightarrow> string" where
  "show_nat n =
     (if n < 10 then [char_of (48 + n)] else show_nat (n div 10) @ [char_of (48 + n mod 10)])"

subsection \<open>Handles\<close>

definition getFootprint :: "updater \<Rightarrow> fp_ref \<Rightarrow> footprint" where
  "getFootprint st r =
     (case r of OnBoard i \<Rightarrow> b_footprints (m_board st) ! i
      | Staged k \<Rightarrow> c_addedFootprints (m_commit st) ! k)"

definition putFootprint :: "fp_ref \<Rightarrow> footprint \<Rightarrow> updater \<Rightarrow> updater" where
  "putFootprint r f st =
     (case r of
        OnBoard i \<Rightarrow> st\<lparr>m_board := (m_board st)\<lparr>b_footprints := (b_footprints (m_board st))[i := f]\<rparr>\<rparr>
      | Staged k \<Rightarrow>
          st\<lparr>m_commit := (m_commit st)\<lparr>c_addedFootprints := (c_addedFootprints (m_commit st))[k := f]\<rparr>\<rparr>)"

definition getPad :: "updater \<Rightarrow> pad_ref \<Rightarrow> pad" where
  "getPad st pr = fp_pads (getFootprint st (fst pr)) ! snd pr"

definition putPad :: "pad_ref \<Rightarrow> pad \<Rightarrow> updater \<Rightarrow> updater" where
  "putPad pr p st =
     (let f = getFootprint st (fst pr)
      in putFootprint (fst pr) (f\<lparr>fp_pads := (fp_pads f)[snd pr := p]\<rparr>) st)"

definition Report :: "string \<Rightarrow> severity \<Rightarrow> updater \<Rightarrow> updater" where
  "Report msg sev st = st\<lparr>m_report := m_report st @ [(sev, msg)]\<rparr>"

definition ReportTail :: "string \<Rightarrow> severity \<Rightarrow> updater \<Rightarrow> updater" where
  "ReportTail msg sev st = st\<lparr>m_reportTail := m_reportTail st @ [(sev, msg)]\<rparr>"

subsection \<open>The dry-run caches\<close>

definition cacheNetname :: "pad_ref \<Rightarrow> string \<Rightarrow> updater \<Rightarrow> updater" where
  "cacheNetname aPad aNetname st = st\<lparr>m_padNets := (m_padNets st)(aPad \<mapsto> aNetname)\<rparr>"

definition getNetname :: "options \<Rightarrow> updater \<Rightarrow> pad_ref \<Rightarrow> string" where
  "getNetname opts st aPad =
     (if m_isDryRun opts \<and> m_padNets st aPad \<noteq> None then the (m_padNets st aPad)
      else pad_netname (getPad st aPad))"

definition cachePinFunction :: "pad_ref \<Rightarrow> string \<Rightarrow> updater \<Rightarrow> updater" where
  "cachePinFunction aPad aPinFunction st =
     st\<lparr>m_padPinFunctions := (m_padPinFunctions st)(aPad \<mapsto> aPinFunction)\<rparr>"

definition getPinFunction :: "options \<Rightarrow> updater \<Rightarrow> pad_ref \<Rightarrow> string" where
  "getPinFunction opts st aPad =
     (if m_isDryRun opts \<and> m_padPinFunctions st aPad \<noteq> None then the (m_padPinFunctions st aPad)
      else pad_pinFunction (getPad st aPad))"

subsection \<open>addNewComponent and replaceComponent\<close>

definition addNewComponent :: "options \<Rightarrow> frame \<Rightarrow> component \<Rightarrow> updater \<Rightarrow> fp_ref option \<times> updater" where
  "addNewComponent opts fr aComponent st =
     (if c_fpid aComponent = [] then
        (None, (Report (''Cannot add '' @ c_reference aComponent @ '' (no footprint assigned).'')
                  RPT_SEVERITY_ERROR st)\<lparr>m_errorCount := m_errorCount st + 1\<rparr>)
      else
        (case LoadFootprint fr (c_fpid aComponent) of
           None \<Rightarrow>
             (None, (Report (''Cannot add '' @ c_reference aComponent @ '' (footprint '' @
                       c_fpid aComponent @ '' not found).'')
                       RPT_SEVERITY_ERROR st)\<lparr>m_errorCount := m_errorCount st + 1\<rparr>)
         | Some footprint \<Rightarrow>
             (let st1 = Report (''Add '' @ c_reference aComponent @ '' (footprint '' @
                          c_fpid aComponent @ '').'') RPT_SEVERITY_ACTION st;
                  footprint1 = footprint\<lparr>fp_pads :=
                     map (\<lambda>pad. pad\<lparr>pad_ratsnestVisible := m_ShowGlobalRatsnest fr,
                                     pad_locked := \<not> m_AddUnlockedPads fr,
                                     pad_netname := []\<rparr>) (fp_pads footprint)\<rparr>;
                  st2 = st1\<lparr>m_newFootprintsCount := m_newFootprintsCount st1 + 1\<rparr>
              in if \<not> m_isDryRun opts then
                   (Some (Staged (length (c_addedFootprints (m_commit st2)))),
                    st2\<lparr>m_commit := (m_commit st2)\<lparr>c_addedFootprints :=
                          c_addedFootprints (m_commit st2) @ [footprint1]\<rparr>\<rparr>)
                 else (None, st2))))"

definition replaceComponent :: "options \<Rightarrow> frame \<Rightarrow> nat \<Rightarrow> component \<Rightarrow> updater \<Rightarrow> fp_ref option \<times> updater" where
  "replaceComponent opts fr aPcbComponent aNewComponent st =
     (if c_fpid aNewComponent = [] then
        (None, (Report (''Cannot update '' @ c_reference aNewComponent @ '' (no footprint assigned).'')
                  RPT_SEVERITY_ERROR st)\<lparr>m_errorCount := m_errorCount st + 1\<rparr>)
      else
        (case LoadFootprint fr (c_fpid aNewComponent) of
           None \<Rightarrow>
             (None, (Report (''Cannot update '' @ c_reference aNewComponent @ '' (footprint '' @
                       c_fpid aNewComponent @ '' not found).'')
                       RPT_SEVERITY_ERROR st)\<lparr>m_errorCount := m_errorCount st + 1\<rparr>)
         | Some newFootprint \<Rightarrow>
             (let existing = getFootprint st (OnBoard aPcbComponent);
                  st1 = Report (''Change '' @ fp_reference existing @ '' footprint from '' @
                          fp_fpid existing @ '' to '' @ c_fpid aNewComponent @ ''.'')
                          RPT_SEVERITY_ACTION st;
                  st2 = st1\<lparr>m_newFootprintsCount := m_newFootprintsCount st1 + 1\<rparr>
              in if \<not> m_isDryRun opts then
                   (Some (Staged (length (c_addedFootprints (m_commit st2)))),
                    st2\<lparr>m_commit := (m_commit st2)
                          \<lparr>c_addedFootprints := c_addedFootprints (m_commit st2) @
                              [ExchangeFootprint fr existing newFootprint],
                           c_removedFootprints := c_removedFootprints (m_commit st2) @ [aPcbComponent]\<rparr>\<rparr>)
                 else (None, st2))))"

subsection \<open>updateFootprintParameters\<close>

text \<open>
  Each test of the source is one step on the footprint and the report; the footprint is
  written back at the end. In a dry run the footprint is left as it is, and the later
  messages read the reference it still has.
\<close>

type_synonym fp_sync = "footprint \<times> report"

definition syncReference :: "bool \<Rightarrow> component \<Rightarrow> fp_sync \<Rightarrow> fp_sync" where
  "syncReference dry c s =
     (case s of (f, rp) \<Rightarrow>
        if fp_reference f \<noteq> c_reference c then
          (if \<not> dry then f\<lparr>fp_reference := c_reference c\<rparr> else f,
           rp @ [(RPT_SEVERITY_ACTION,
                  ''Change '' @ fp_reference f @ '' reference designator to '' @ c_reference c @ ''.'')])
        else (f, rp))"

definition syncValue :: "bool \<Rightarrow> component \<Rightarrow> fp_sync \<Rightarrow> fp_sync" where
  "syncValue dry c s =
     (case s of (f, rp) \<Rightarrow>
        if fp_value f \<noteq> c_value c then
          (if \<not> dry then f\<lparr>fp_value := c_value c\<rparr> else f,
           rp @ [(RPT_SEVERITY_ACTION,
                  ''Change '' @ fp_reference f @ '' value from '' @ fp_value f @ '' to '' @
                  c_value c @ ''.'')])
        else (f, rp))"

definition syncPath :: "bool \<Rightarrow> component \<Rightarrow> fp_sync \<Rightarrow> fp_sync" where
  "syncPath dry c s =
     (case s of (f, rp) \<Rightarrow>
        if fp_path f \<noteq> c_path c then
          (if \<not> dry then f\<lparr>fp_path := c_path c\<rparr> else f,
           rp @ [(RPT_SEVERITY_ACTION,
                  ''Update '' @ fp_reference f @ '' symbol association from '' @ fp_path f @
                  '' to '' @ c_path c @ ''.'')])
        else (f, rp))"

definition syncProperties :: "bool \<Rightarrow> component \<Rightarrow> fp_sync \<Rightarrow> fp_sync" where
  "syncProperties dry c s =
     (case s of (f, rp) \<Rightarrow>
        if \<not> same_properties (fp_properties f) (c_properties c) then
          (if \<not> dry then f\<lparr>fp_properties := c_properties c\<rparr> else f,
           rp @ [(RPT_SEVERITY_ACTION, ''Update '' @ fp_reference f @ '' properties.'')])
        else (f, rp))"

definition syncExcludeFromBom :: "bool \<Rightarrow> component \<Rightarrow> fp_sync \<Rightarrow> fp_sync" where
  "syncExcludeFromBom dry c s =
     (case s of (f, rp) \<Rightarrow>
        if has_property (c_properties c) ''exclude_from_bom''
             \<noteq> (fp_attributes f AND FP_EXCLUDE_FROM_BOM > 0) then
          (let attributes =
                 (if has_property (c_properties c) ''exclude_from_bom''
                  then fp_attributes f OR FP_EXCLUDE_FROM_BOM
                  else fp_attributes f AND NOT FP_EXCLUDE_FROM_BOM);
               msg =
                 (if has_property (c_properties c) ''exclude_from_bom''
                  then ''Setting '' @ fp_reference f @ '' exclude from BOM fabrication attribute.''
                  else ''Removing '' @ fp_reference f @ '' exclude from BOM fabrication attribute.'')
           in (if \<not> dry then f\<lparr>fp_attributes := attributes\<rparr> else f,
               rp @ [(RPT_SEVERITY_ACTION, msg)]))
        else (f, rp))"

definition syncAll :: "bool \<Rightarrow> component \<Rightarrow> fp_sync \<Rightarrow> fp_sync" where
  "syncAll dry c s =
     syncExcludeFromBom dry c (syncProperties dry c (syncPath dry c (syncValue dry c
       (syncReference dry c s))))"

definition updateFootprintParameters :: "options \<Rightarrow> fp_ref \<Rightarrow> component \<Rightarrow> updater \<Rightarrow> updater" where
  "updateFootprintParameters opts aPcbFootprint aNetlistComponent st =
     (case syncAll (m_isDryRun opts) aNetlistComponent
             (getFootprint st aPcbFootprint, m_report st) of
        (f, rp) \<Rightarrow> putFootprint aPcbFootprint f (st\<lparr>m_report := rp\<rparr>))"

subsection \<open>updateComponentPadConnections\<close>

text \<open>
  The body of the loop over the pads of the footprint, for the pad with handle \<open>pr\<close>. The
  footprint's pads are written back after the loop; the body reads no other footprint.
\<close>

definition padConnection ::
  "options \<Rightarrow> component \<Rightarrow> string \<Rightarrow> pad_ref \<Rightarrow> pad \<Rightarrow> updater \<Rightarrow> pad \<times> updater" where
  "padConnection opts aNewComponent fpRef pr pad0 st0 =
     (let net = GetNet aNewComponent (pad_name pad0);
          pinFunction = (if IsValid net then cn_pinFunction net else []);
          pinType = (if IsValid net then cn_pinType net else []);
          pad1 = (if \<not> m_isDryRun opts
                  then pad0\<lparr>pad_pinFunction := pinFunction, pad_pinType := pinType\<rparr> else pad0);
          st1 = (if \<not> m_isDryRun opts then st0 else cachePinFunction pr pinFunction st0)
      in if \<not> IsValid net \<or> \<not> pad_onCopper pad1 then
           (let st2 =
                  (if pad_netname pad1 \<noteq> [] then
                     Report (''Disconnect '' @ fpRef @ '' pin '' @ pad_name pad1 @ ''.'')
                       RPT_SEVERITY_ACTION st1
                   else if m_warnForNoNetPads opts \<and> pad_onCopper pad1 \<and> pad_name pad1 \<noteq> [] then
                     Report (''No net for symbol '' @ fpRef @ '' pin '' @ pad_name pad1 @ ''.'')
                       RPT_SEVERITY_WARNING st1
                   else st1)
            in if \<not> m_isDryRun opts then
                 (let pad2 = pad1\<lparr>pad_netname := []\<rparr>
                  in (if pad_netname pad2 = [] then pad2\<lparr>pad_pinFunction := []\<rparr> else pad2, st2))
               else (pad1, cacheNetname pr [] st2))
         else
           (let netName = cn_netName net;
                netinfo = FindNet (m_board st1) netName;
                st2 = (if netinfo \<noteq> None \<and> \<not> m_isDryRun opts
                       then st1\<lparr>m_board := SetIsCurrent netName (m_board st1)\<rparr> else st1)
            in if pad_netname pad1 \<noteq> netName then
                 (let netinfo1 = (if netinfo = None then m_addedNets st2 netName else netinfo);
                      st3 =
                        (if netinfo1 = None then
                           (let sA = (if \<not> m_isDryRun opts
                                      then st2\<lparr>m_commit := (m_commit st2)\<lparr>c_addedNets :=
                                             c_addedNets (m_commit st2) @ [new_NETINFO_ITEM netName]\<rparr>\<rparr>
                                      else st2)
                            in Report (''Add net '' @ netName @ ''.'') RPT_SEVERITY_ACTION
                                 (sA\<lparr>m_addedNets := (m_addedNets sA)(netName \<mapsto> new_NETINFO_ITEM netName)\<rparr>))
                         else st2);
                      st4 =
                        (if pad_netname pad1 \<noteq> [] then
                           Report (''Reconnect '' @ fpRef @ '' pin '' @ pad_name pad1 @ '' from '' @
                                   pad_netname pad1 @ '' to '' @ netName @ ''.'') RPT_SEVERITY_ACTION
                             (st3\<lparr>m_oldToNewNets := (m_oldToNewNets st3)(pad_netname pad1 \<mapsto> netName)\<rparr>)
                         else
                           Report (''Connect '' @ fpRef @ '' pin '' @ pad_name pad1 @ '' to '' @
                                   netName @ ''.'') RPT_SEVERITY_ACTION st3)
                  in if \<not> m_isDryRun opts then (pad1\<lparr>pad_netname := netName\<rparr>, st4)
                     else (pad1, cacheNetname pr netName st4))
               else (pad1, st2)))"

fun padsLoop ::
  "options \<Rightarrow> component \<Rightarrow> string \<Rightarrow> fp_ref \<Rightarrow> nat \<Rightarrow> pad list \<Rightarrow> updater \<Rightarrow> pad list \<times> updater" where
  "padsLoop opts c fpRef r j [] st = ([], st)"
| "padsLoop opts c fpRef r j (p # ps) st =
     (case padConnection opts c fpRef (r, j) p st of
        (p', st') \<Rightarrow>
          (case padsLoop opts c fpRef r (Suc j) ps st' of (ps', st'') \<Rightarrow> (p' # ps', st'')))"

definition updateComponentPadConnections :: "options \<Rightarrow> fp_ref \<Rightarrow> component \<Rightarrow> updater \<Rightarrow> updater" where
  "updateComponentPadConnections opts aFootprint aNewComponent st =
     (let f = getFootprint st aFootprint
      in case padsLoop opts aNewComponent (fp_reference f) aFootprint 0 (fp_pads f) st of
           (ps, st') \<Rightarrow> putFootprint aFootprint (f\<lparr>fp_pads := ps\<rparr>) st')"

subsection \<open>Zones and vias\<close>

text \<open>
  \<^verbatim>\<open>GetConnectedPads( zone )\<close> of the board's connectivity data (not in src) is the field
  \<open>zone_connectedPads\<close> of the zone.
\<close>

definition relevantZone :: "zone \<Rightarrow> bool" where
  "relevantZone z = (\<not> (\<not> zone_onCopper z \<or> zone_isRuleArea z))"

fun cacheZones :: "nat \<Rightarrow> zone list \<Rightarrow> updater \<Rightarrow> updater" where
  "cacheZones k [] st = st"
| "cacheZones k (z # zs) st =
     (if \<not> zone_onCopper z \<or> zone_isRuleArea z then cacheZones (Suc k) zs st
      else cacheZones (Suc k) zs
             (st\<lparr>m_zoneConnectionsCache := (m_zoneConnectionsCache st)(k \<mapsto> zone_connectedPads z)\<rparr>))"

definition cacheCopperZoneConnections :: "updater \<Rightarrow> updater" where
  "cacheCopperZoneConnections st = cacheZones 0 (b_zones (m_board st)) st"

definition netlistNetnames :: "netlist \<Rightarrow> string list" where
  "netlistNetnames aNetlist = concat (map (\<lambda>component. map cn_netName (c_nets component)) aNetlist)"

text \<open>
  \<^verbatim>\<open>netinfo = FindNet( name ); if( !netinfo ) netinfo = m_addedNets[ name ];\<close> The entry
  that \<^verbatim>\<open>operator[]\<close> creates for a missing name holds a null pointer, which every reader
  treats as a missing name.
\<close>

definition findOrAdded :: "updater \<Rightarrow> string \<Rightarrow> netinfo option" where
  "findOrAdded st name =
     (case FindNet (m_board st) name of Some n \<Rightarrow> Some n | None \<Rightarrow> m_addedNets st name)"

definition viaNet :: "options \<Rightarrow> string list \<Rightarrow> track \<Rightarrow> updater \<Rightarrow> track \<times> updater" where
  "viaNet opts names via st =
     (if \<not> track_isVia via then (via, st)
      else if track_netname via \<notin> set names then
        (let updatedNetname =
               (case m_oldToNewNets st (track_netname via) of Some n \<Rightarrow> n | None \<Rightarrow> [])
         in if updatedNetname \<noteq> [] then
              (let st1 = Report (''Reconnect via from '' @ track_netname via @ '' to '' @
                                 updatedNetname @ ''.'') RPT_SEVERITY_ACTION st
               in if \<not> m_isDryRun opts \<and> findOrAdded st1 updatedNetname \<noteq> None
                  then (via\<lparr>track_netname := updatedNetname\<rparr>, st1) else (via, st1))
            else
              (via, (Report (''Via connected to unknown net ('' @ track_netname via @ '').'')
                       RPT_SEVERITY_WARNING st)\<lparr>m_warningCount := m_warningCount st + 1\<rparr>))
      else (via, st))"

fun viasLoop :: "options \<Rightarrow> string list \<Rightarrow> track list \<Rightarrow> updater \<Rightarrow> track list \<times> updater" where
  "viasLoop opts names [] st = ([], st)"
| "viasLoop opts names (v # vs) st =
     (case viaNet opts names v st of
        (v', st') \<Rightarrow> (case viasLoop opts names vs st' of (vs', st'') \<Rightarrow> (v' # vs', st'')))"

definition zoneNet :: "options \<Rightarrow> string list \<Rightarrow> nat \<Rightarrow> zone \<Rightarrow> updater \<Rightarrow> zone \<times> updater" where
  "zoneNet opts names k zone st =
     (if \<not> zone_onCopper zone \<or> zone_isRuleArea zone then (zone, st)
      else if zone_netname zone \<notin> set names then
        (let cached = (case m_zoneConnectionsCache st k of Some ps \<Rightarrow> ps | None \<Rightarrow> []);
             fromPad =
               (case find (\<lambda>pad. getNetname opts st pad \<noteq> zone_netname zone) cached of
                  Some pad \<Rightarrow> getNetname opts st pad | None \<Rightarrow> []);
             updatedNetname =
               (if fromPad = [] \<and> m_oldToNewNets st (zone_netname zone) \<noteq> None
                then the (m_oldToNewNets st (zone_netname zone)) else fromPad)
         in if updatedNetname \<noteq> [] then
              (let st1 = Report (''Reconnect copper zone from '' @ zone_netname zone @ '' to '' @
                                 updatedNetname @ ''.'') RPT_SEVERITY_ACTION st
               in if \<not> m_isDryRun opts \<and> findOrAdded st1 updatedNetname \<noteq> None
                  then (zone\<lparr>zone_netname := updatedNetname\<rparr>, st1) else (zone, st1))
            else
              (zone, (Report (''Copper zone ('' @ zone_netname zone @ '') has no pads connected.'')
                        RPT_SEVERITY_WARNING st)\<lparr>m_warningCount := m_warningCount st + 1\<rparr>))
      else (zone, st))"

fun zonesLoop :: "options \<Rightarrow> string list \<Rightarrow> nat \<Rightarrow> zone list \<Rightarrow> updater \<Rightarrow> zone list \<times> updater" where
  "zonesLoop opts names k [] st = ([], st)"
| "zonesLoop opts names k (z # zs) st =
     (case zoneNet opts names k z st of
        (z', st') \<Rightarrow> (case zonesLoop opts names (Suc k) zs st' of (zs', st'') \<Rightarrow> (z' # zs', st'')))"

definition updateCopperZoneNets :: "options \<Rightarrow> netlist \<Rightarrow> updater \<Rightarrow> updater" where
  "updateCopperZoneNets opts aNetlist st =
     (let names = netlistNetnames aNetlist
      in case viasLoop opts names (b_tracks (m_board st)) st of
           (vias, st1) \<Rightarrow>
             (let st2 = st1\<lparr>m_board := (m_board st1)\<lparr>b_tracks := vias\<rparr>\<rparr>
              in case zonesLoop opts names 0 (b_zones (m_board st2)) st2 of
                   (zones, st3) \<Rightarrow> st3\<lparr>m_board := (m_board st3)\<lparr>b_zones := zones\<rparr>\<rparr>))"

subsection \<open>deleteSinglePadNets\<close>

text \<open>
  \<^verbatim>\<open>m_board->GetPads()\<close>: the pads of the footprints in the board's list, in order.
  \<^verbatim>\<open>std::sort\<close> by net name is a sort by key; which of several pads of one net comes last
  matters only to a net that has one pad. \<^verbatim>\<open>BuildListOfNets\<close> (not in src) changes no
  field modelled here.
\<close>

definition GetPads :: "board \<Rightarrow> pad_ref list" where
  "GetPads b =
     concat (map (\<lambda>i. map (\<lambda>j. (OnBoard i, j)) [0..<length (fp_pads (b_footprints b ! i))])
               [0..<length (b_footprints b)])"

definition SetNetCodeUnconnected :: "pad_ref \<Rightarrow> updater \<Rightarrow> updater" where
  "SetNetCodeUnconnected pr st = putPad pr ((getPad st pr)\<lparr>pad_netname := []\<rparr>) st"

definition zoneOnNet :: "board \<Rightarrow> string \<Rightarrow> bool" where
  "zoneOnNet b name =
     (\<exists>zone \<in> set (b_zones b). zone_onCopper zone \<and> \<not> zone_isRuleArea zone \<and> zone_netname zone = name)"

text \<open>The block run at the end of a net, when the net before had one pad.\<close>

definition endOfNet :: "options \<Rightarrow> pad_ref \<Rightarrow> updater \<Rightarrow> updater" where
  "endOfNet opts previouspad st =
     (let count = (if zoneOnNet (m_board st) (getNetname opts st previouspad) then 2 else (1::nat))
      in if count = 1 then
           (let st1 = Report (''Remove single pad net '' @ getNetname opts st previouspad @ ''.'')
                        RPT_SEVERITY_ACTION st
            in if \<not> m_isDryRun opts then SetNetCodeUnconnected previouspad st1
               else cacheNetname previouspad [] st1)
         else st)"

fun singlePadScan ::
  "options \<Rightarrow> pad_ref list \<Rightarrow> nat \<times> string \<times> pad_ref option \<times> updater
     \<Rightarrow> nat \<times> string \<times> pad_ref option \<times> updater" where
  "singlePadScan opts [] s = s"
| "singlePadScan opts (pad # rest) (count, netname, previouspad, st) =
     (if getNetname opts st pad = [] then singlePadScan opts rest (count, netname, previouspad, st)
      else if netname \<noteq> getNetname opts st pad then
        (let st1 = (case previouspad of
                      Some pp \<Rightarrow> if count = 1 then endOfNet opts pp st else st
                    | None \<Rightarrow> st)
         in singlePadScan opts rest (1, getNetname opts st1 pad, Some pad, st1))
      else singlePadScan opts rest (count + 1, netname, Some pad, st))"

definition deleteSinglePadNets :: "options \<Rightarrow> updater \<Rightarrow> updater" where
  "deleteSinglePadNets opts st =
     (let padlist = sort_key (getNetname opts st) (GetPads (m_board st))
      in case singlePadScan opts padlist (0, [], None, st) of
           (count, netname, previouspad, st1) \<Rightarrow>
             (if count = 1 then
                (if \<not> m_isDryRun opts then SetNetCodeUnconnected (the previouspad) st1
                 else cacheNetname (the previouspad) [] st1)
              else st1))"

subsection \<open>testConnectivity\<close>

definition FindPadByName :: "footprint \<Rightarrow> string \<Rightarrow> bool" where
  "FindPadByName f name = (\<exists>p \<in> set (fp_pads f). pad_name p = name)"

fun testPins :: "component \<Rightarrow> footprint \<Rightarrow> component_net list \<Rightarrow> updater \<Rightarrow> updater" where
  "testPins component f [] st = st"
| "testPins component f (net # nets) st =
     (if FindPadByName f (cn_pinName net) then testPins component f nets st
      else testPins component f nets
             ((Report (c_reference component @ '' pad '' @ cn_pinName net @ '' not found in '' @
                       fp_fpid f @ ''.'') RPT_SEVERITY_ERROR st)\<lparr>m_errorCount := m_errorCount st + 1\<rparr>))"

fun testComponents :: "(nat \<rightharpoonup> fp_ref) \<Rightarrow> nat \<Rightarrow> component list \<Rightarrow> updater \<Rightarrow> updater" where
  "testComponents aFootprintMap i [] st = st"
| "testComponents aFootprintMap i (component # cs) st =
     (case aFootprintMap i of
        None \<Rightarrow> testComponents aFootprintMap (Suc i) cs st
      | Some r \<Rightarrow>
          testComponents aFootprintMap (Suc i) cs
            (testPins component (getFootprint st r) (c_nets component) st))"

definition testConnectivity :: "netlist \<Rightarrow> (nat \<rightharpoonup> fp_ref) \<Rightarrow> updater \<Rightarrow> updater" where
  "testConnectivity aNetlist aFootprintMap st = testComponents aFootprintMap 0 aNetlist st"

subsection \<open>UpdateNetlist\<close>

text \<open>
  The footprint map of \<^verbatim>\<open>UpdateNetlist\<close> is keyed by the component's index in the netlist.
  The loop over the board's footprints stops after the footprint \<open>lastFp\<close>, the last one the board had when the pass began.
\<close>

type_synonym match_state = "nat \<times> (nat \<rightharpoonup> fp_ref) \<times> updater"

definition isMatch :: "options \<Rightarrow> footprint \<Rightarrow> component \<Rightarrow> bool" where
  "isMatch opts footprint component =
     (if m_lookupByTimestamp opts then fp_path footprint = c_path component
      else CmpNoCase (fp_reference footprint) (c_reference component))"

definition matchStep :: "options \<Rightarrow> frame \<Rightarrow> nat \<Rightarrow> component \<Rightarrow> nat \<Rightarrow> match_state \<Rightarrow> match_state" where
  "matchStep opts fr i component fi s =
     (case s of (matchCount, footprintMap, st) \<Rightarrow>
        (let footprint = getFootprint st (OnBoard fi)
         in if isMatch opts footprint component then
              (case (if m_replaceFootprints opts \<and> c_fpid component \<noteq> fp_fpid footprint
                     then replaceComponent opts fr fi component st
                     else (Some (OnBoard fi), st)) of
                 (Some tmp, st1) \<Rightarrow>
                   (matchCount + 1, footprintMap(i \<mapsto> tmp),
                    updateComponentPadConnections opts tmp component
                      (updateFootprintParameters opts tmp component st1))
               | (None, st1) \<Rightarrow> (matchCount + 1, footprintMap, st1))
            else (matchCount, footprintMap, st)))"

fun matchLoop ::
  "options \<Rightarrow> frame \<Rightarrow> nat option \<Rightarrow> nat \<Rightarrow> component \<Rightarrow> nat list \<Rightarrow> match_state \<Rightarrow> match_state" where
  "matchLoop opts fr lastFp i component [] s = s"
| "matchLoop opts fr lastFp i component (fi # rest) s =
     (let s1 = matchStep opts fr i component fi s
      in if Some fi = lastFp then s1 else matchLoop opts fr lastFp i component rest s1)"

definition processComponent ::
  "options \<Rightarrow> frame \<Rightarrow> nat option \<Rightarrow> nat \<Rightarrow> component \<Rightarrow> (nat \<rightharpoonup> fp_ref) \<times> updater
     \<Rightarrow> (nat \<rightharpoonup> fp_ref) \<times> updater" where
  "processComponent opts fr lastFp i component s =
     (case s of (footprintMap, st) \<Rightarrow>
        if has_property (c_properties component) ''exclude_from_board'' then (footprintMap, st)
        else
          (case matchLoop opts fr lastFp i component [0..<length (b_footprints (m_board st))]
                  (0, footprintMap,
                   Report (''Processing symbol '' @ c_reference component @ '':'' @
                           c_fpid component @ ''.'') RPT_SEVERITY_INFO st) of
             (matchCount, footprintMap1, st1) \<Rightarrow>
               if matchCount = 0 then
                 (case addNewComponent opts fr component st1 of
                    (Some footprint, st2) \<Rightarrow>
                      (footprintMap1(i \<mapsto> footprint),
                       updateComponentPadConnections opts footprint component
                         (updateFootprintParameters opts footprint component st2))
                  | (None, st2) \<Rightarrow> (footprintMap1, st2))
               else if matchCount > 1 then
                 (footprintMap1,
                  Report (''Multiple footprints found for '' @ c_reference component @ ''.'')
                    RPT_SEVERITY_ERROR st1)
               else (footprintMap1, st1)))"

fun componentsLoop ::
  "options \<Rightarrow> frame \<Rightarrow> nat option \<Rightarrow> nat \<Rightarrow> component list \<Rightarrow> (nat \<rightharpoonup> fp_ref) \<times> updater
     \<Rightarrow> (nat \<rightharpoonup> fp_ref) \<times> updater" where
  "componentsLoop opts fr lastFp i [] s = s"
| "componentsLoop opts fr lastFp i (component # cs) s =
     componentsLoop opts fr lastFp (Suc i) cs (processComponent opts fr lastFp i component s)"

text \<open>The sweep over the board's footprints that have no matching component.\<close>

definition markPadNets :: "pad list \<Rightarrow> board \<Rightarrow> board" where
  "markPadNets pads b = fold (\<lambda>pad. SetIsCurrent (pad_netname pad)) pads b"

definition sweepStep :: "options \<Rightarrow> netlist \<Rightarrow> nat \<Rightarrow> updater \<Rightarrow> updater" where
  "sweepStep opts aNetlist fi st =
     (let footprint = getFootprint st (OnBoard fi);
          doDelete0 = m_deleteUnusedComponents opts;
          doDelete1 = (if fp_attributes footprint AND FP_BOARD_ONLY > 0 then False else doDelete0);
          doDelete2 =
            (if doDelete1 then
               (case (if m_lookupByTimestamp opts
                      then GetComponentByPath aNetlist (fp_path footprint)
                      else GetComponentByReference aNetlist (fp_reference footprint)) of
                  Some component \<Rightarrow>
                    (if \<not> has_property (c_properties component) ''exclude_from_board''
                     then False else doDelete1)
                | None \<Rightarrow> doDelete1)
             else doDelete1);
          st1 = (if doDelete2 \<and> fp_locked footprint then
                   Report (''Cannot remove unused footprint '' @ fp_reference footprint @ '' (locked).'')
                     RPT_SEVERITY_WARNING st
                 else st);
          doDelete3 = (if doDelete2 \<and> fp_locked footprint then False else doDelete2)
      in if doDelete3 then
           (let st2 = Report (''Remove unused footprint '' @ fp_reference footprint @ ''.'')
                        RPT_SEVERITY_ACTION st1
            in if \<not> m_isDryRun opts then
                 st2\<lparr>m_commit := (m_commit st2)\<lparr>c_removedFootprints :=
                       c_removedFootprints (m_commit st2) @ [fi]\<rparr>\<rparr>
               else st2)
         else if \<not> m_isDryRun opts then
           st1\<lparr>m_board := markPadNets (fp_pads footprint) (m_board st1)\<rparr>
         else st1)"

definition sweepLoop :: "options \<Rightarrow> netlist \<Rightarrow> updater \<Rightarrow> updater" where
  "sweepLoop opts aNetlist st =
     fold (sweepStep opts aNetlist) [0..<length (b_footprints (m_board st))] st"

text \<open>
  Modelled from the spec: \<^verbatim>\<open>Push\<close> of the commit (not in src) applies the staged mutations
  "atomically": the footprints staged for removal leave the board's list, the staged
  footprints and nets join it, a net receiving a code no net of the registry has ("unique
  integer code").
\<close>

definition AppendNet :: "netinfo list \<Rightarrow> netinfo \<Rightarrow> netinfo list" where
  "AppendNet nets n = nets @ [n\<lparr>net_code := 1 + fold max (map net_code nets) 0\<rparr>]"

definition keptFootprints :: "nat list \<Rightarrow> footprint list \<Rightarrow> footprint list" where
  "keptFootprints removed fps =
     map snd (filter (\<lambda>(i, f). i \<notin> set removed) (zip [0..<length fps] fps))"

definition Push :: "updater \<Rightarrow> updater" where
  "Push st =
     st\<lparr>m_board := (m_board st)
           \<lparr>b_footprints := keptFootprints (c_removedFootprints (m_commit st))
                               (b_footprints (m_board st)) @ c_addedFootprints (m_commit st),
            b_nets := fold (\<lambda>n nets. AppendNet nets n) (c_addedNets (m_commit st))
                        (b_nets (m_board st))\<rparr>,
        m_commit := new_commit\<rparr>"

definition markStale :: "board \<Rightarrow> board" where
  "markStale b = b\<lparr>b_nets := map (\<lambda>net. net\<lparr>net_isCurrent := (net_code net = 0)\<rparr>) (b_nets b)\<rparr>"

definition reportUnusedNets :: "updater \<Rightarrow> updater" where
  "reportUnusedNets st =
     fold (\<lambda>net s. if \<not> net_isCurrent net
                    then Report (''Remove unused net '' @ net_name net @ ''.'') RPT_SEVERITY_ACTION s
                    else s)
       (b_nets (m_board st)) st"

definition lastPreexisting :: "board \<Rightarrow> nat option" where
  "lastPreexisting b =
     (if b_footprints b \<noteq> [] then Some (length (b_footprints b) - 1) else None)"

text \<open>
  \<^verbatim>\<open>UpdateNetlist\<close> always returns true; the model returns the updater after the call.
  \<^verbatim>\<open>SetStatus( 0 )\<close> and the rebuild of the connectivity data change no field modelled.
  The body is written phase by phase, in the order of the source: the counters are reset,
  the last footprint of the board is noted, the zone connections are cached and the nets
  marked stale (\<open>beginPass\<close>); the loop over the components; the zones and vias and the
  sweep over the footprints (\<open>sweepPass\<close>); the commit or the dry-run pruning
  (\<open>endPass\<close>); the summary.
\<close>

definition beginPass :: "options \<Rightarrow> updater \<Rightarrow> updater" where
  "beginPass opts st0 =
     (let st1 = st0\<lparr>m_errorCount := 0, m_warningCount := 0, m_newFootprintsCount := 0\<rparr>;
          st2 = cacheCopperZoneConnections st1
      in if \<not> m_isDryRun opts then st2\<lparr>m_board := markStale (m_board st2)\<rparr> else st2)"

definition sweepPass ::
  "options \<Rightarrow> netlist \<Rightarrow> (nat \<rightharpoonup> fp_ref) \<times> updater \<Rightarrow> (nat \<rightharpoonup> fp_ref) \<times> updater" where
  "sweepPass opts aNetlist s =
     (case s of (footprintMap, st) \<Rightarrow>
        (footprintMap, sweepLoop opts aNetlist (updateCopperZoneNets opts aNetlist st)))"

definition removeStaleNets :: "updater \<Rightarrow> updater" where
  "removeStaleNets st = (reportUnusedNets st)\<lparr>m_board := RemoveUnusedNets (m_board st)\<rparr>"

definition endPass :: "options \<Rightarrow> netlist \<Rightarrow> (nat \<rightharpoonup> fp_ref) \<times> updater \<Rightarrow> updater" where
  "endPass opts aNetlist s =
     (case s of (footprintMap, st) \<Rightarrow>
        if \<not> m_isDryRun opts then
          Push (removeStaleNets
                  (if m_deleteSinglePadNets opts
                   then deleteSinglePadNets opts (testConnectivity aNetlist footprintMap st)
                   else testConnectivity aNetlist footprintMap st))
        else if m_deleteSinglePadNets opts \<and> m_newFootprintsCount st = 0
          then deleteSinglePadNets opts st
        else st)"

definition summary :: "options \<Rightarrow> updater \<Rightarrow> updater" where
  "summary opts st =
     (let st1 = (if m_isDryRun opts then st\<lparr>m_addedNets := Map.empty\<rparr> else st)
      in ReportTail (''Total warnings: '' @ show_nat (m_warningCount st1) @ '', errors: '' @
                     show_nat (m_errorCount st1) @ ''.'') RPT_SEVERITY_INFO
           (ReportTail [] RPT_SEVERITY_ACTION (ReportTail [] RPT_SEVERITY_ACTION st1)))"

definition UpdateNetlist :: "options \<Rightarrow> frame \<Rightarrow> netlist \<Rightarrow> updater \<Rightarrow> updater" where
  "UpdateNetlist opts fr aNetlist st0 =
     summary opts
       (endPass opts aNetlist
          (sweepPass opts aNetlist
             (componentsLoop opts fr (lastPreexisting (m_board st0)) 0 aNetlist
                (Map.empty, beginPass opts st0))))"

subsection \<open>Notions used in the properties\<close>

text \<open>
  A footprint handle is valid when it lies in the list it indexes. The number of footprints
  in the board's list.
\<close>

definition wfRef :: "updater \<Rightarrow> fp_ref \<Rightarrow> bool" where
  "wfRef st r =
     (case r of OnBoard i \<Rightarrow> i < length (b_footprints (m_board st))
      | Staged k \<Rightarrow> k < length (c_addedFootprints (m_commit st)))"

definition nFootprints :: "updater \<Rightarrow> nat" where
  "nFootprints st = length (b_footprints (m_board st))"

text \<open>
  How the registry and the commit may change between two points of one pass after the nets
  were marked stale: no net of the registry appears, disappears or changes its name or code,
  and no current net becomes stale; the board's footprint list keeps its length; nothing
  staged is unstaged.
\<close>

definition netGrows :: "netinfo \<Rightarrow> netinfo \<Rightarrow> bool" where
  "netGrows x y =
     (net_name y = net_name x \<and> net_code y = net_code x \<and> (net_isCurrent x \<longrightarrow> net_isCurrent y))"

definition evolves :: "updater \<Rightarrow> updater \<Rightarrow> bool" where
  "evolves st st' =
     (nFootprints st' = nFootprints st
      \<and> list_all2 netGrows (b_nets (m_board st)) (b_nets (m_board st'))
      \<and> set (c_addedNets (m_commit st)) \<subseteq> set (c_addedNets (m_commit st'))
      \<and> length (c_addedFootprints (m_commit st)) \<le> length (c_addedFootprints (m_commit st'))
      \<and> set (c_removedFootprints (m_commit st)) \<subseteq> set (c_removedFootprints (m_commit st')))"

text \<open>
  A net name is known when it is empty, names a net of the registry or names a net staged
  in the commit; it is live when that net of the registry is current. Every net the updater
  remembers as added is staged in the commit.
\<close>

definition knownNet :: "updater \<Rightarrow> string \<Rightarrow> bool" where
  "knownNet st n =
     (n = [] \<or> n \<in> net_name ` set (b_nets (m_board st))
      \<or> n \<in> net_name ` set (c_addedNets (m_commit st)))"

definition liveNet :: "updater \<Rightarrow> string \<Rightarrow> bool" where
  "liveNet st n =
     (n = [] \<or> (\<exists>x \<in> set (b_nets (m_board st)). net_name x = n \<and> net_isCurrent x)
      \<or> n \<in> net_name ` set (c_addedNets (m_commit st)))"

definition addedNetsStaged :: "updater \<Rightarrow> bool" where
  "addedNetsStaged st =
     (\<forall>n. m_addedNets st n \<noteq> None \<longrightarrow> n \<in> net_name ` set (c_addedNets (m_commit st)))"

text \<open>
  The invariant of a committing pass: the added nets are staged, the pads of all footprints
  (on the board or staged) are on known nets, and the pads of the staged footprints are on
  live nets.
\<close>

definition padsOn :: "(string \<Rightarrow> bool) \<Rightarrow> footprint \<Rightarrow> bool" where
  "padsOn P f = (\<forall>p \<in> set (fp_pads f). P (pad_netname p))"

definition passInv :: "updater \<Rightarrow> bool" where
  "passInv st =
     (addedNetsStaged st
      \<and> (\<forall>f \<in> set (b_footprints (m_board st)). padsOn (knownNet st) f)
      \<and> (\<forall>f \<in> set (c_addedFootprints (m_commit st)). padsOn (liveNet st) f))"

text \<open>
  The state a synchronisation of the footprint \<open>r\<close> starts from: as the invariant, except
  that a staged footprint about to be synchronised need only be on known nets.
\<close>

definition preSync :: "updater \<Rightarrow> fp_ref \<Rightarrow> bool" where
  "preSync st r =
     (wfRef st r \<and> addedNetsStaged st
      \<and> (\<forall>f \<in> set (b_footprints (m_board st)). padsOn (knownNet st) f)
      \<and> (\<forall>f \<in> set (c_addedFootprints (m_commit st)). padsOn (knownNet st) f)
      \<and> (\<forall>k < length (c_addedFootprints (m_commit st)).
            Staged k \<noteq> r \<longrightarrow> padsOn (liveNet st) (c_addedFootprints (m_commit st) ! k)))"

text \<open>
  An assumption on the frame: \<^verbatim>\<open>ExchangeFootprint\<close> hands over a footprint whose pads are
  unconnected or on nets of the footprint it replaces.
\<close>

definition exchangeKeepsNets :: "frame \<Rightarrow> bool" where
  "exchangeKeepsNets fr =
     (\<forall>existing new. \<forall>p \<in> set (fp_pads (ExchangeFootprint fr existing new)).
        pad_netname p = [] \<or> pad_netname p \<in> pad_netname ` set (fp_pads existing))"

text \<open>After the sweep: every footprint of the board is staged for removal or has live pads.\<close>

definition keptLive :: "updater \<Rightarrow> bool" where
  "keptLive st =
     (\<forall>fi < length (b_footprints (m_board st)).
        fi \<in> set (c_removedFootprints (m_commit st))
        \<or> padsOn (liveNet st) (b_footprints (m_board st) ! fi))"

text \<open>
  Further notions for the proofs: steps that touch neither footprints nor nets nor the commit;
  the footprints the sweep has dealt with; a board whose remaining pads are all on live nets;
  two states with the same nets, staged nets and removals.
\<close>

definition quiet :: "updater \<Rightarrow> updater \<Rightarrow> bool" where
  "quiet st st' =
     (b_footprints (m_board st') = b_footprints (m_board st)
      \<and> b_nets (m_board st') = b_nets (m_board st)
      \<and> m_commit st' = m_commit st
      \<and> m_addedNets st' = m_addedNets st)"

definition sweptLive :: "nat \<Rightarrow> updater \<Rightarrow> bool" where
  "sweptLive k st =
     (\<forall>fi < k. fi \<in> set (c_removedFootprints (m_commit st))
        \<or> padsOn (liveNet st) (b_footprints (m_board st) ! fi))"

definition settled :: "updater \<Rightarrow> bool" where
  "settled st =
     (keptLive st \<and> (\<forall>f \<in> set (c_addedFootprints (m_commit st)). padsOn (liveNet st) f))"

definition sameNets :: "updater \<Rightarrow> updater \<Rightarrow> bool" where
  "sameNets st st' =
     (b_nets (m_board st') = b_nets (m_board st)
      \<and> c_addedNets (m_commit st') = c_addedNets (m_commit st)
      \<and> c_removedFootprints (m_commit st') = c_removedFootprints (m_commit st)
      \<and> length (b_footprints (m_board st')) = length (b_footprints (m_board st))
      \<and> length (c_addedFootprints (m_commit st')) = length (c_addedFootprints (m_commit st)))"

text \<open>The pad a committing \<^verbatim>\<open>updateComponentPadConnections\<close> leaves for a pad and a component.\<close>

definition syncedPad :: "component \<Rightarrow> pad \<Rightarrow> pad" where
  "syncedPad c p =
     (let net = GetNet c (pad_name p)
      in if IsValid net \<and> pad_onCopper p
         then p\<lparr>pad_pinFunction := cn_pinFunction net, pad_pinType := cn_pinType net,
                pad_netname := cn_netName net\<rparr>
         else p\<lparr>pad_pinFunction := [], pad_pinType := (if IsValid net then cn_pinType net else []),
                pad_netname := []\<rparr>)"

text \<open>
  The footprint a committing \<^verbatim>\<open>updateFootprintParameters\<close> leaves, and the footprint after
  both synchronisations with a component.
\<close>

definition syncedFields :: "component \<Rightarrow> footprint \<Rightarrow> footprint" where
  "syncedFields c f = fst (syncAll False c (f, []))"

definition syncFootprint :: "component \<Rightarrow> footprint \<Rightarrow> footprint" where
  "syncFootprint c f = (syncedFields c f)\<lparr>fp_pads := map (syncedPad c) (fp_pads f)\<rparr>"

text \<open>
  What the scan for a component leaves of a board footprint, and the condition under which
  the scan exchanges no footprint for a component.
\<close>

definition syncIfMatch :: "options \<Rightarrow> component \<Rightarrow> footprint \<Rightarrow> footprint" where
  "syncIfMatch opts c f = (if isMatch opts f c then syncFootprint c f else f)"

definition noExchange :: "options \<Rightarrow> component \<Rightarrow> footprint list \<Rightarrow> bool" where
  "noExchange opts c fps =
     (\<forall>f \<in> set fps. isMatch opts f c \<longrightarrow> \<not> (m_replaceFootprints opts \<and> c_fpid c \<noteq> fp_fpid f))"

text \<open>
  The repair of a stale zone or via net in the words of the specification: the net of the
  first pad of the zone's snapshot whose net name differs from the zone's; the new name the
  rename map has for an old one; the net a zone is repaired to (snapshot first, rename map
  second) and the net a via is repaired to (rename map only). The empty name stands for
  no repair.
\<close>

definition snapshotNet :: "options \<Rightarrow> updater \<Rightarrow> nat \<Rightarrow> zone \<Rightarrow> string" where
  "snapshotNet opts st k z =
     (case find (\<lambda>pad. getNetname opts st pad \<noteq> zone_netname z)
             (case m_zoneConnectionsCache st k of Some ps \<Rightarrow> ps | None \<Rightarrow> []) of
        Some pad \<Rightarrow> getNetname opts st pad
      | None \<Rightarrow> [])"

definition renamedNet :: "updater \<Rightarrow> string \<Rightarrow> string" where
  "renamedNet st n = (case m_oldToNewNets st n of Some n' \<Rightarrow> n' | None \<Rightarrow> [])"

definition zoneRepairNet :: "options \<Rightarrow> updater \<Rightarrow> nat \<Rightarrow> zone \<Rightarrow> string" where
  "zoneRepairNet opts st k z =
     (if snapshotNet opts st k z \<noteq> [] then snapshotNet opts st k z
      else renamedNet st (zone_netname z))"

definition viaRepairNet :: "updater \<Rightarrow> track \<Rightarrow> string" where
  "viaRepairNet st v = renamedNet st (track_netname v)"

subsection \<open>Example boards and netlists\<close>

definition noLibrary :: frame where
  "noLibrary = \<lparr>LoadFootprint = (\<lambda>fpid. None), ExchangeFootprint = (\<lambda>existing new. new),
     m_ShowGlobalRatsnest = True, m_AddUnlockedPads = True\<rparr>"

definition unconnectedNet :: netinfo where
  "unconnectedNet = \<lparr>net_name = [], net_code = 0, net_isCurrent = True\<rparr>"

definition mkPad :: "string \<Rightarrow> string \<Rightarrow> pad" where
  "mkPad name net = \<lparr>pad_name = name, pad_pinFunction = [], pad_pinType = [], pad_netname = net,
     pad_onCopper = True, pad_locked = False, pad_ratsnestVisible = True\<rparr>"

definition mkFootprint :: "string \<Rightarrow> string \<Rightarrow> pad list \<Rightarrow> footprint" where
  "mkFootprint ref val pads = \<lparr>fp_reference = ref, fp_value = val, fp_fpid = ''R_0603'',
     fp_path = ''/'' @ ref, fp_properties = [], fp_attributes = 0, fp_locked = False,
     fp_pads = pads\<rparr>"

definition mkComponent :: "string \<Rightarrow> string \<Rightarrow> (string \<times> string) list \<Rightarrow> component" where
  "mkComponent ref val pins = \<lparr>c_reference = ref, c_value = val, c_fpid = ''R_0603'',
     c_path = ''/'' @ ref, c_properties = [],
     c_nets = map (\<lambda>(pin, net). \<lparr>cn_pinName = pin, cn_netName = net, cn_pinFunction = [],
                                    cn_pinType = []\<rparr>) pins\<rparr>"

text \<open>A library that knows one footprint, a resistor with two pads.\<close>

definition resistorLibrary :: frame where
  "resistorLibrary = noLibrary\<lparr>LoadFootprint :=
     (\<lambda>fpid. if fpid = ''R_0603'' then Some (mkFootprint [] [] [mkPad ''1'' [], mkPad ''2'' []])
              else None)\<rparr>"

text \<open>The same library in a frame whose exchange hands over footprints with unconnected pads.\<close>

definition resettingLibrary :: frame where
  "resettingLibrary = resistorLibrary\<lparr>ExchangeFootprint :=
     (\<lambda>existing new. new\<lparr>fp_pads := map (\<lambda>pad. pad\<lparr>pad_netname := []\<rparr>) (fp_pads new)\<rparr>)\<rparr>"

text \<open>An empty board, and a component that has no footprint assigned.\<close>

definition emptyBoard :: board where
  "emptyBoard = \<lparr>b_footprints = [], b_nets = [unconnectedNet], b_zones = [], b_tracks = []\<rparr>"

definition compNoFpid :: component where
  "compNoFpid = (mkComponent ''C7'' ''100n'' [])\<lparr>c_fpid := []\<rparr>"

text \<open>One resistor whose only connected pad is the only pad of net N1.\<close>

definition boardR1 :: board where
  "boardR1 = \<lparr>b_footprints = [mkFootprint ''R1'' ''1k'' [mkPad ''1'' ''N1'']],
     b_nets = [unconnectedNet, \<lparr>net_name = ''N1'', net_code = 1, net_isCurrent = True\<rparr>],
     b_zones = [], b_tracks = []\<rparr>"

definition compR1 :: component where
  "compR1 = mkComponent ''R1'' ''1k'' [(''1'', ''N1'')]"

text \<open>The same board with a copper zone on net N1.\<close>

definition boardR1Zone :: board where
  "boardR1Zone = boardR1\<lparr>b_zones := [\<lparr>zone_netname = ''N1'', zone_onCopper = True,
     zone_isRuleArea = False, zone_connectedPads = [(OnBoard 0, 0)]\<rparr>]\<rparr>"

text \<open>A locked footprint that no component of the netlist matches.\<close>

definition boardLockedU1 :: board where
  "boardLockedU1 = \<lparr>b_footprints = [(mkFootprint ''U1'' ''MCU'' [])\<lparr>fp_locked := True\<rparr>],
     b_nets = [unconnectedNet], b_zones = [], b_tracks = []\<rparr>"

text \<open>
  A resistor on net NEW, and a zone and a via that are both still on net OLD; the board's
  connectivity data links the zone to the resistor's pad.
\<close>

definition zoneOld :: zone where
  "zoneOld = \<lparr>zone_netname = ''OLD'', zone_onCopper = True, zone_isRuleArea = False,
     zone_connectedPads = [(OnBoard 0, 0)]\<rparr>"

definition viaOld :: track where
  "viaOld = \<lparr>track_isVia = True, track_netname = ''OLD''\<rparr>"

definition boardStale :: board where
  "boardStale = \<lparr>b_footprints = [mkFootprint ''R1'' ''1k'' [mkPad ''1'' ''NEW'']],
     b_nets = [unconnectedNet, \<lparr>net_name = ''OLD'', net_code = 1, net_isCurrent = True\<rparr>,
               \<lparr>net_name = ''NEW'', net_code = 2, net_isCurrent = True\<rparr>],
     b_zones = [zoneOld], b_tracks = [viaOld]\<rparr>"

definition compR1New :: component where
  "compR1New = mkComponent ''R1'' ''1k'' [(''1'', ''NEW'')]"

text \<open>Two footprints with the reference R1, and a component R1 with another value.\<close>

definition boardTwoR1 :: board where
  "boardTwoR1 = \<lparr>b_footprints = [mkFootprint ''R1'' ''1k'' [], mkFootprint ''R1'' ''1k'' []],
     b_nets = [unconnectedNet], b_zones = [], b_tracks = []\<rparr>"

definition compR1Value2k :: component where
  "compR1Value2k = mkComponent ''R1'' ''2k'' []"

definition deleteUnusedOptions :: options where
  "deleteUnusedOptions = default_options\<lparr>m_deleteUnusedComponents := True\<rparr>"

definition keepSinglePadNets :: options where
  "keepSinglePadNets = default_options\<lparr>m_deleteSinglePadNets := False\<rparr>"

text \<open>A netlist that moves pin 1 of R1 to net N2 and adds a resistor R2 on the same net.\<close>

definition netlistN2 :: netlist where
  "netlistN2 = [mkComponent ''R1'' ''1k'' [(''1'', ''N2'')], mkComponent ''R2'' ''1k'' [(''1'', ''N2'')]]"

definition dryRunOptions :: options where
  "dryRunOptions = default_options\<lparr>m_isDryRun := True\<rparr>"

text \<open>An unlocked footprint R9 and a netlist whose component R9 asks to be left off the board.\<close>

definition boardR9 :: board where
  "boardR9 = \<lparr>b_footprints = [mkFootprint ''R9'' ''1k'' []],
     b_nets = [unconnectedNet], b_zones = [], b_tracks = []\<rparr>"

definition compR9Excluded :: component where
  "compR9Excluded = (mkComponent ''R9'' ''2k'' [])\<lparr>c_properties := [(''exclude_from_board'', ''1'')]\<rparr>"

section \<open>Properties\<close>

subsection \<open>Basic facts about reports and handles\<close>

lemma getFootprint_Report [simp]: "getFootprint (Report msg sev st) r = getFootprint st r"
  by (simp add: getFootprint_def Report_def split: fp_ref.split)

lemma m_board_Report [simp]: "m_board (Report msg sev st) = m_board st"
  by (simp add: Report_def)

lemma m_commit_Report [simp]: "m_commit (Report msg sev st) = m_commit st"
  by (simp add: Report_def)

lemma matchLoop_no_match:
  "\<forall>fi \<in> set fis. \<not> isMatch opts (getFootprint st (OnBoard fi)) c \<Longrightarrow>
   matchLoop opts fr lastFp i c fis (mc, fm, st) = (mc, fm, st)"
  by (induction fis) (simp_all add: matchStep_def Let_def)

subsection \<open>A component that cannot be added\<close>

text \<open>
  Claim C8. A component that is not excluded from the board and that no footprint of the
  board matches, whose footprint identifier is empty or unknown to the library, makes
  \<^verbatim>\<open>addNewComponent\<close> return no footprint: one Error message is reported, the error
  counter grows by one, board and commit stay as they were, and the loop of
  \<^verbatim>\<open>UpdateNetlist\<close> goes on with the remaining components from that state.
\<close>

theorem addNewComponent_failure_is_local:
  assumes notExcluded: "\<not> has_property (c_properties c) ''exclude_from_board''"
    and noMatch: "\<forall>fi < length (b_footprints (m_board st)).
                    \<not> isMatch opts (b_footprints (m_board st) ! fi) c"
    and failure: "c_fpid c = [] \<or> LoadFootprint fr (c_fpid c) = None"
  shows "\<exists>msg. addNewComponent opts fr c st =
            (None, st\<lparr>m_report := m_report st @ [(RPT_SEVERITY_ERROR, msg)],
                      m_errorCount := m_errorCount st + 1\<rparr>)
          \<and> componentsLoop opts fr lastFp i (c # cs) (fm, st) =
            componentsLoop opts fr lastFp (Suc i) cs
              (fm, st\<lparr>m_report := m_report st @
                         [(RPT_SEVERITY_INFO,
                           ''Processing symbol '' @ c_reference c @ '':'' @ c_fpid c @ ''.''),
                          (RPT_SEVERITY_ERROR, msg)],
                       m_errorCount := m_errorCount st + 1\<rparr>)"
proof -
  let ?st1 = "Report (''Processing symbol '' @ c_reference c @ '':'' @ c_fpid c @ ''.'')
                RPT_SEVERITY_INFO st"
  have "\<forall>fi \<in> set [0..<length (b_footprints (m_board st))].
          \<not> isMatch opts (getFootprint ?st1 (OnBoard fi)) c"
    using noMatch by (simp add: getFootprint_def)
  then have scan:
    "matchLoop opts fr lastFp i c [0..<length (b_footprints (m_board st))] (0, fm, ?st1) =
       (0, fm, ?st1)"
    by (rule matchLoop_no_match)
  show ?thesis
    using failure scan notExcluded
    by (auto simp: processComponent_def addNewComponent_def Report_def)
qed

theorem addNewComponent_failure_is_local_witness:
  "\<exists>msg. addNewComponent default_options noLibrary compNoFpid (new_updater emptyBoard) =
      (None, (new_updater emptyBoard)\<lparr>m_report := [(RPT_SEVERITY_ERROR, msg)], m_errorCount := 1\<rparr>)
    \<and> componentsLoop default_options noLibrary None 0 [compNoFpid, compR1]
        (Map.empty, new_updater emptyBoard) =
      componentsLoop default_options noLibrary None 1 [compR1]
        (Map.empty, (new_updater emptyBoard)\<lparr>m_report :=
            [(RPT_SEVERITY_INFO, ''Processing symbol C7:.''), (RPT_SEVERITY_ERROR, msg)],
          m_errorCount := 1\<rparr>)"
  using addNewComponent_failure_is_local
          [of compNoFpid "new_updater emptyBoard" default_options noLibrary None 0 "[compR1]"
              Map.empty]
  by (simp add: compNoFpid_def mkComponent_def has_property_def new_updater_def emptyBoard_def)

subsection \<open>A component excluded from the board\<close>

text \<open>
  Claim C10. A component whose properties contain the key exclude_from_board is skipped by
  the loop of \<^verbatim>\<open>UpdateNetlist\<close> before any matching: the footprint map and the updater
  (board, commit, report, counters) are returned as they were. In the sweep, a footprint
  whose lookup in the netlist finds that component is not kept by it: with
  deleteUnusedComponents set, no board-only attribute and no lock, a committing run reports
  its removal and stages it.
\<close>

theorem exclude_from_board_skips_component:
  assumes excluded: "has_property (c_properties c) ''exclude_from_board''"
  shows "processComponent opts fr lastFp i c s = s
    \<and> ((if m_lookupByTimestamp opts
          then GetComponentByPath nl (fp_path (getFootprint st (OnBoard fi)))
          else GetComponentByReference nl (fp_reference (getFootprint st (OnBoard fi)))) = Some c
        \<and> m_deleteUnusedComponents opts
        \<and> \<not> fp_attributes (getFootprint st (OnBoard fi)) AND FP_BOARD_ONLY > 0
        \<and> \<not> fp_locked (getFootprint st (OnBoard fi)) \<and> \<not> m_isDryRun opts \<longrightarrow>
        sweepStep opts nl fi st =
          st\<lparr>m_report := m_report st @
                [(RPT_SEVERITY_ACTION,
                  ''Remove unused footprint '' @ fp_reference (getFootprint st (OnBoard fi)) @ ''.'')],
             m_commit := (m_commit st)\<lparr>c_removedFootprints :=
                c_removedFootprints (m_commit st) @ [fi]\<rparr>\<rparr>)"
  using excluded
  by (cases s) (auto simp: processComponent_def sweepStep_def Report_def Let_def)

theorem exclude_from_board_skips_component_witness:
  "has_property (c_properties compR9Excluded) ''exclude_from_board''
   \<and> processComponent deleteUnusedOptions noLibrary (Some 0) 0 compR9Excluded
        (Map.empty, new_updater boardR9) = (Map.empty, new_updater boardR9)
   \<and> GetComponentByReference [compR9Excluded] ''R9'' = Some compR9Excluded
   \<and> sweepStep deleteUnusedOptions [compR9Excluded] 0 (new_updater boardR9) =
       (new_updater boardR9)\<lparr>m_report := [(RPT_SEVERITY_ACTION, ''Remove unused footprint R9.'')],
          m_commit := new_commit\<lparr>c_removedFootprints := [0]\<rparr>\<rparr>"
  using exclude_from_board_skips_component
          [of compR9Excluded deleteUnusedOptions noLibrary "Some 0" 0
              "(Map.empty, new_updater boardR9)" "[compR9Excluded]" "new_updater boardR9" 0]
  by (simp add: compR9Excluded_def mkComponent_def has_property_def new_updater_def boardR9_def
        deleteUnusedOptions_def default_options_def getFootprint_def mkFootprint_def
        GetComponentByReference_def FP_BOARD_ONLY_def new_commit_def)

subsection \<open>A locked footprint that is not in the netlist\<close>

text \<open>
  Claim C7. The board holds the locked footprint U1, the netlist is empty and
  deleteUnusedComponents is set. After the committing pass U1 is still on the board and the
  Warning is reported, but the warning counter the caller reads is 0, not 1: the sweep
  reports the warning without counting it, where the warnings for vias and zones are
  counted.
\<close>

theorem locked_unused_footprint_warning_not_counted:
  "map fp_reference (b_footprints (m_board
       (UpdateNetlist deleteUnusedOptions noLibrary [] (new_updater boardLockedU1)))) = [''U1'']
   \<and> m_report (UpdateNetlist deleteUnusedOptions noLibrary [] (new_updater boardLockedU1)) =
       [(RPT_SEVERITY_WARNING, ''Cannot remove unused footprint U1 (locked).'')]
   \<and> m_warningCount (UpdateNetlist deleteUnusedOptions noLibrary [] (new_updater boardLockedU1)) = 0"
  by code_simp

subsection \<open>The last net of the single-pad scan\<close>

text \<open>
  Claim C4. Net N1 has one pad and a copper zone that is no rule area. The pad is the last
  (and only) group of the scan of \<^verbatim>\<open>deleteSinglePadNets\<close>, whose closing block does not
  look at the zones: the pad loses its net, although a zone is on N1.
\<close>

theorem last_single_pad_net_cleared_despite_zone:
  "zoneOnNet boardR1Zone ''N1''
   \<and> GetPads boardR1Zone = [(OnBoard 0, 0)]
   \<and> pad_netname (getPad (new_updater boardR1Zone) (OnBoard 0, 0)) = ''N1''
   \<and> pad_netname (getPad (deleteSinglePadNets default_options (new_updater boardR1Zone))
        (OnBoard 0, 0)) = []"
  by code_simp

subsection \<open>A dry run leaves the board alone\<close>

lemma putFootprint_same [simp]: "putFootprint r (getFootprint st r) st = st"
  by (cases r) (simp_all add: putFootprint_def getFootprint_def)

lemma cacheZones_board [simp]:
  "m_board (cacheZones k zs st) = m_board st \<and> m_commit (cacheZones k zs st) = m_commit st"
  by (induction zs arbitrary: k st) simp_all

lemma addNewComponent_dry:
  "m_isDryRun opts \<Longrightarrow>
   fst (addNewComponent opts fr c st) = None
   \<and> m_board (snd (addNewComponent opts fr c st)) = m_board st
   \<and> m_commit (snd (addNewComponent opts fr c st)) = m_commit st"
  by (simp add: addNewComponent_def Let_def split: option.split)

lemma replaceComponent_dry:
  "m_isDryRun opts \<Longrightarrow>
   fst (replaceComponent opts fr fi c st) = None
   \<and> m_board (snd (replaceComponent opts fr fi c st)) = m_board st
   \<and> m_commit (snd (replaceComponent opts fr fi c st)) = m_commit st"
  by (simp add: replaceComponent_def Let_def split: option.split)

lemma syncAll_dry: "fst (syncAll True c (f, rp)) = f"
  by (simp add: syncAll_def syncReference_def syncValue_def syncPath_def syncProperties_def
        syncExcludeFromBom_def Let_def)

lemma putFootprint_report_dry:
  "putFootprint r (getFootprint st r) (st\<lparr>m_report := rp\<rparr>) = st\<lparr>m_report := rp\<rparr>"
  by (cases r) (simp_all add: putFootprint_def getFootprint_def)

lemma updateFootprintParameters_dry:
  assumes "m_isDryRun opts"
  shows "m_board (updateFootprintParameters opts r c st) = m_board st
       \<and> m_commit (updateFootprintParameters opts r c st) = m_commit st"
proof -
  obtain f rp where s: "syncAll True c (getFootprint st r, m_report st) = (f, rp)"
    by (cases "syncAll True c (getFootprint st r, m_report st)")
  with syncAll_dry [of c "getFootprint st r" "m_report st"] have "f = getFootprint st r"
    by simp
  with s assms show ?thesis
    by (simp add: updateFootprintParameters_def putFootprint_report_dry)
qed

lemma padConnection_dry:
  "m_isDryRun opts \<Longrightarrow>
   fst (padConnection opts c fpRef pr p st) = p
   \<and> m_board (snd (padConnection opts c fpRef pr p st)) = m_board st
   \<and> m_commit (snd (padConnection opts c fpRef pr p st)) = m_commit st"
  by (simp add: padConnection_def Let_def cacheNetname_def cachePinFunction_def)

lemma padsLoop_dry:
  "m_isDryRun opts \<Longrightarrow>
   fst (padsLoop opts c fpRef r j ps st) = ps
   \<and> m_board (snd (padsLoop opts c fpRef r j ps st)) = m_board st
   \<and> m_commit (snd (padsLoop opts c fpRef r j ps st)) = m_commit st"
proof (induction ps arbitrary: j st)
  case Nil
  then show ?case by simp
next
  case (Cons p ps)
  obtain p' st' where step: "padConnection opts c fpRef (r, j) p st = (p', st')"
    by (cases "padConnection opts c fpRef (r, j) p st")
  with padConnection_dry [OF Cons.prems, of c fpRef "(r, j)" p st]
  have p': "p' = p" "m_board st' = m_board st" "m_commit st' = m_commit st"
    by simp_all
  obtain ps' st'' where rest: "padsLoop opts c fpRef r (Suc j) ps st' = (ps', st'')"
    by (cases "padsLoop opts c fpRef r (Suc j) ps st'")
  with Cons.IH [OF Cons.prems, of "Suc j" st'] p' step show ?case
    by simp
qed



lemma getFootprint_cong:
  "m_board st' = m_board st \<Longrightarrow> m_commit st' = m_commit st \<Longrightarrow>
   getFootprint st' r = getFootprint st r"
  by (simp add: getFootprint_def split: fp_ref.split)


lemma getPad_cong:
  "m_board st' = m_board st \<Longrightarrow> m_commit st' = m_commit st \<Longrightarrow> getPad st' pr = getPad st pr"
  using getFootprint_cong [of st' st "fst pr"] by (simp add: getPad_def)


lemma updateComponentPadConnections_dry:
  assumes dry: "m_isDryRun opts"
  shows "m_board (updateComponentPadConnections opts r c st) = m_board st
       \<and> m_commit (updateComponentPadConnections opts r c st) = m_commit st"
proof -
  let ?f = "getFootprint st r"
  obtain ps st' where loop: "padsLoop opts c (fp_reference ?f) r 0 (fp_pads ?f) st = (ps, st')"
    by (cases "padsLoop opts c (fp_reference ?f) r 0 (fp_pads ?f) st")
  with padsLoop_dry [OF dry, of c "fp_reference ?f" r 0 "fp_pads ?f" st]
  have same: "ps = fp_pads ?f" "m_board st' = m_board st" "m_commit st' = m_commit st"
    by simp_all
  then have "putFootprint r (?f\<lparr>fp_pads := ps\<rparr>) st' = st'"
    using putFootprint_same [of r st'] getFootprint_cong [of st' st r] by simp
  with loop same show ?thesis
    by (simp add: updateComponentPadConnections_def Let_def)
qed


lemma matchStep_dry:
  assumes dry: "m_isDryRun opts"
  shows "m_board (snd (snd (matchStep opts fr i c fi (mc, fm, st)))) = m_board st
       \<and> m_commit (snd (snd (matchStep opts fr i c fi (mc, fm, st)))) = m_commit st"
  using replaceComponent_dry [OF dry, of fr fi c st]
  by (cases "replaceComponent opts fr fi c st")
     (simp add: matchStep_def Let_def updateComponentPadConnections_dry [OF dry]
        updateFootprintParameters_dry [OF dry])


lemma matchLoop_dry:
  assumes dry: "m_isDryRun opts"
  shows "m_board (snd (snd (matchLoop opts fr lastFp i c fis (mc, fm, st)))) = m_board st
       \<and> m_commit (snd (snd (matchLoop opts fr lastFp i c fis (mc, fm, st)))) = m_commit st"
proof (induction fis arbitrary: mc fm st)
  case Nil
  then show ?case by simp
next
  case (Cons fi fis)
  obtain mc' fm' st' where step: "matchStep opts fr i c fi (mc, fm, st) = (mc', fm', st')"
    by (cases "matchStep opts fr i c fi (mc, fm, st)")
  with matchStep_dry [OF dry, of fr i c fi mc fm st]
  have "m_board st' = m_board st" "m_commit st' = m_commit st"
    by simp_all
  with Cons.IH [of mc' fm' st'] step show ?case
    by (simp add: Let_def)
qed


lemma processComponent_dry:
  assumes dry: "m_isDryRun opts"
  shows "m_board (snd (processComponent opts fr lastFp i c (fm, st))) = m_board st
       \<and> m_commit (snd (processComponent opts fr lastFp i c (fm, st))) = m_commit st"
proof -
  let ?st0 = "Report (''Processing symbol '' @ c_reference c @ '':'' @ c_fpid c @ ''.'')
                RPT_SEVERITY_INFO st"
  obtain mc fm1 st1 where
    scan: "matchLoop opts fr lastFp i c [0..<length (b_footprints (m_board st))] (0, fm, ?st0) =
             (mc, fm1, st1)"
    by (cases "matchLoop opts fr lastFp i c [0..<length (b_footprints (m_board st))] (0, fm, ?st0)")
  with matchLoop_dry [OF dry, of fr lastFp i c "[0..<length (b_footprints (m_board st))]" 0 fm ?st0]
  have st1: "m_board st1 = m_board st" "m_commit st1 = m_commit st"
    by simp_all
  obtain r st2 where add: "addNewComponent opts fr c st1 = (r, st2)"
    by (cases "addNewComponent opts fr c st1")
  with addNewComponent_dry [OF dry, of fr c st1]
  have "r = None" "m_board st2 = m_board st1" "m_commit st2 = m_commit st1"
    by simp_all
  with scan st1 add show ?thesis
    by (simp add: processComponent_def)
qed


lemma componentsLoop_dry:
  assumes dry: "m_isDryRun opts"
  shows "m_board (snd (componentsLoop opts fr lastFp i cs (fm, st))) = m_board st
       \<and> m_commit (snd (componentsLoop opts fr lastFp i cs (fm, st))) = m_commit st"
proof (induction cs arbitrary: i fm st)
  case Nil
  then show ?case by simp
next
  case (Cons c cs)
  obtain fm' st' where step: "processComponent opts fr lastFp i c (fm, st) = (fm', st')"
    by (cases "processComponent opts fr lastFp i c (fm, st)")
  with processComponent_dry [OF dry, of fr lastFp i c fm st] Cons.IH [of "Suc i" fm' st']
  show ?case by simp
qed


lemma viaNet_dry:
  "m_isDryRun opts \<Longrightarrow>
   fst (viaNet opts names v st) = v
   \<and> m_board (snd (viaNet opts names v st)) = m_board st
   \<and> m_commit (snd (viaNet opts names v st)) = m_commit st"
  by (simp add: viaNet_def Let_def)

lemma viasLoop_dry:
  "m_isDryRun opts \<Longrightarrow>
   fst (viasLoop opts names vs st) = vs
   \<and> m_board (snd (viasLoop opts names vs st)) = m_board st
   \<and> m_commit (snd (viasLoop opts names vs st)) = m_commit st"
proof (induction vs arbitrary: st)
  case Nil
  then show ?case by simp
next
  case (Cons v vs)
  obtain v' st' where step: "viaNet opts names v st = (v', st')"
    by (cases "viaNet opts names v st")
  with viaNet_dry [OF Cons.prems, of names v st]
  have v': "v' = v" "m_board st' = m_board st" "m_commit st' = m_commit st"
    by simp_all
  obtain vs' st'' where rest: "viasLoop opts names vs st' = (vs', st'')"
    by (cases "viasLoop opts names vs st'")
  with Cons.IH [OF Cons.prems, of st'] v' step show ?case
    by simp
qed

lemma zoneNet_dry:
  "m_isDryRun opts \<Longrightarrow>
   fst (zoneNet opts names k z st) = z
   \<and> m_board (snd (zoneNet opts names k z st)) = m_board st
   \<and> m_commit (snd (zoneNet opts names k z st)) = m_commit st"
  by (simp add: zoneNet_def Let_def)

lemma zonesLoop_dry:
  "m_isDryRun opts \<Longrightarrow>
   fst (zonesLoop opts names k zs st) = zs
   \<and> m_board (snd (zonesLoop opts names k zs st)) = m_board st
   \<and> m_commit (snd (zonesLoop opts names k zs st)) = m_commit st"
proof (induction zs arbitrary: k st)
  case Nil
  then show ?case by simp
next
  case (Cons z zs)
  obtain z' st' where step: "zoneNet opts names k z st = (z', st')"
    by (cases "zoneNet opts names k z st")
  with zoneNet_dry [OF Cons.prems, of names k z st]
  have z': "z' = z" "m_board st' = m_board st" "m_commit st' = m_commit st"
    by simp_all
  obtain zs' st'' where rest: "zonesLoop opts names (Suc k) zs st' = (zs', st'')"
    by (cases "zonesLoop opts names (Suc k) zs st'")
  with Cons.IH [OF Cons.prems, of "Suc k" st'] z' step show ?case
    by simp
qed

lemma updateCopperZoneNets_dry:
  assumes dry: "m_isDryRun opts"
  shows "m_board (updateCopperZoneNets opts nl st) = m_board st
       \<and> m_commit (updateCopperZoneNets opts nl st) = m_commit st"
proof -
  let ?names = "netlistNetnames nl"
  obtain vias st1 where v: "viasLoop opts ?names (b_tracks (m_board st)) st = (vias, st1)"
    by (cases "viasLoop opts ?names (b_tracks (m_board st)) st")
  with viasLoop_dry [OF dry, of ?names "b_tracks (m_board st)" st]
  have v': "vias = b_tracks (m_board st)" "m_board st1 = m_board st" "m_commit st1 = m_commit st"
    by simp_all
  then have st2: "st1\<lparr>m_board := (m_board st1)\<lparr>b_tracks := vias\<rparr>\<rparr> = st1"
    by simp
  obtain zones st3 where z: "zonesLoop opts ?names 0 (b_zones (m_board st1)) st1 = (zones, st3)"
    by (cases "zonesLoop opts ?names 0 (b_zones (m_board st1)) st1")
  with zonesLoop_dry [OF dry, of ?names 0 "b_zones (m_board st1)" st1]
  have z': "zones = b_zones (m_board st1)" "m_board st3 = m_board st1" "m_commit st3 = m_commit st1"
    by simp_all
  have "updateCopperZoneNets opts nl st = st3\<lparr>m_board := (m_board st3)\<lparr>b_zones := zones\<rparr>\<rparr>"
    unfolding updateCopperZoneNets_def Let_def v prod.case st2 z ..
  with v' z' show ?thesis
    by simp
qed

lemma sweepStep_dry:
  "m_isDryRun opts \<Longrightarrow>
   m_board (sweepStep opts nl fi st) = m_board st \<and> m_commit (sweepStep opts nl fi st) = m_commit st"
  by (simp add: sweepStep_def Let_def)

lemma fold_sweepStep_dry:
  "m_isDryRun opts \<Longrightarrow>
   m_board (fold (sweepStep opts nl) fis st) = m_board st
   \<and> m_commit (fold (sweepStep opts nl) fis st) = m_commit st"
  by (induction fis arbitrary: st) (simp_all add: sweepStep_dry)

lemma sweepLoop_dry:
  "m_isDryRun opts \<Longrightarrow>
   m_board (sweepLoop opts nl st) = m_board st \<and> m_commit (sweepLoop opts nl st) = m_commit st"
  by (simp add: sweepLoop_def fold_sweepStep_dry)

lemma endOfNet_dry:
  "m_isDryRun opts \<Longrightarrow>
   m_board (endOfNet opts pp st) = m_board st \<and> m_commit (endOfNet opts pp st) = m_commit st"
  by (simp add: endOfNet_def Let_def cacheNetname_def)

lemma singlePadScan_dry:
  "m_isDryRun opts \<Longrightarrow>
   m_board (snd (snd (snd (singlePadScan opts pads (count, netname, prev, st))))) = m_board st
   \<and> m_commit (snd (snd (snd (singlePadScan opts pads (count, netname, prev, st))))) = m_commit st"
proof (induction pads arbitrary: count netname prev st)
  case Nil
  then show ?case by simp
next
  case (Cons pad pads)
  show ?case
    using Cons.IH [OF Cons.prems] endOfNet_dry [OF Cons.prems]
    by (simp add: Let_def split: option.split)
qed

lemma deleteSinglePadNets_dry:
  assumes dry: "m_isDryRun opts"
  shows "m_board (deleteSinglePadNets opts st) = m_board st
       \<and> m_commit (deleteSinglePadNets opts st) = m_commit st"
proof -
  let ?padlist = "sort_key (getNetname opts st) (GetPads (m_board st))"
  obtain count netname prev st1 where
    scan: "singlePadScan opts ?padlist (0, [], None, st) = (count, netname, prev, st1)"
    by (cases "singlePadScan opts ?padlist (0, [], None, st)")
  with singlePadScan_dry [OF dry, of ?padlist 0 "[]" None st]
  have "m_board st1 = m_board st" "m_commit st1 = m_commit st"
    by simp_all
  with scan dry show ?thesis
    by (simp add: deleteSinglePadNets_def Let_def cacheNetname_def)
qed

lemma summary_board [simp]:
  "m_board (summary opts st) = m_board st \<and> m_commit (summary opts st) = m_commit st"
  by (simp add: summary_def Let_def ReportTail_def)

lemma beginPass_dry:
  "m_isDryRun opts \<Longrightarrow>
   m_board (beginPass opts st) = m_board st \<and> m_commit (beginPass opts st) = m_commit st"
  by (simp add: beginPass_def Let_def cacheCopperZoneConnections_def)

text \<open>
  Claim C1. With isDryRun set, \<^verbatim>\<open>UpdateNetlist\<close> returns the board it was given: every
  footprint with its pads, every net of the registry (and every zone and track) is as
  before the call, and nothing is staged in the commit. What a dry run changes is the
  report, the counters and the updater's caches.
\<close>

theorem dry_run_leaves_board_unchanged:
  assumes dry: "m_isDryRun opts"
  shows "m_board (UpdateNetlist opts fr nl st) = m_board st
       \<and> m_commit (UpdateNetlist opts fr nl st) = m_commit st"
proof -
  let ?st3 = "beginPass opts st"
  obtain fm st4 where
    loop: "componentsLoop opts fr (lastPreexisting (m_board st)) 0 nl (Map.empty, ?st3) = (fm, st4)"
    by (cases "componentsLoop opts fr (lastPreexisting (m_board st)) 0 nl (Map.empty, ?st3)")
  with componentsLoop_dry [OF dry, of fr "lastPreexisting (m_board st)" 0 nl Map.empty ?st3]
    beginPass_dry [OF dry, of st]
  have st4: "m_board st4 = m_board st" "m_commit st4 = m_commit st"
    by simp_all
  let ?st6 = "sweepLoop opts nl (updateCopperZoneNets opts nl st4)"
  have st6: "m_board ?st6 = m_board st" "m_commit ?st6 = m_commit st"
    using sweepLoop_dry [OF dry, of nl "updateCopperZoneNets opts nl st4"]
      updateCopperZoneNets_dry [OF dry, of nl st4] st4
    by simp_all
  have "m_board (endPass opts nl (fm, ?st6)) = m_board st
      \<and> m_commit (endPass opts nl (fm, ?st6)) = m_commit st"
    using dry st6 deleteSinglePadNets_dry [OF dry, of ?st6]
    by (simp add: endPass_def)
  with loop show ?thesis
    by (simp add: UpdateNetlist_def sweepPass_def)
qed

theorem dry_run_leaves_board_unchanged_witness:
  "m_isDryRun dryRunOptions
   \<and> m_board (UpdateNetlist dryRunOptions noLibrary [mkComponent ''R1'' ''2k'' [(''1'', ''N2'')]]
        (new_updater boardR1Zone)) = boardR1Zone"
  using dry_run_leaves_board_unchanged
          [of dryRunOptions noLibrary "[mkComponent ''R1'' ''2k'' [(''1'', ''N2'')]]"
              "new_updater boardR1Zone"]
  by (simp add: dryRunOptions_def default_options_def new_updater_def)


lemma padsLoop_invariant:
  assumes step: "\<And>j p s p' s'. padConnection opts c fpRef (r, j) p s = (p', s') \<Longrightarrow> P s \<Longrightarrow> P s'"
    and loop: "padsLoop opts c fpRef r j ps st = (ps', st')"
    and init: "P st"
  shows "P st'"
  using loop init
proof (induction ps arbitrary: j st ps' st')
  case Nil
  then show ?case by simp
next
  case (Cons p ps)
  obtain p1 st1 where one: "padConnection opts c fpRef (r, j) p st = (p1, st1)"
    by (cases "padConnection opts c fpRef (r, j) p st")
  obtain ps2 st2 where rest: "padsLoop opts c fpRef r (Suc j) ps st1 = (ps2, st2)"
    by (cases "padsLoop opts c fpRef r (Suc j) ps st1")
  from Cons.prems(1) one rest have "st' = st2"
    by simp
  moreover have "P st1"
    using step [OF one] Cons.prems(2) .
  ultimately show ?case
    using Cons.IH [OF rest] by simp
qed

lemma matchLoop_invariant:
  assumes step: "\<And>fi s. P s \<Longrightarrow> P (matchStep opts fr i c fi s)"
    and init: "P s"
  shows "P (matchLoop opts fr lastFp i c fis s)"
  using init
  by (induction fis arbitrary: s) (simp_all add: Let_def step)

lemma componentsLoop_invariant:
  assumes step: "\<And>i c s. P s \<Longrightarrow> P (processComponent opts fr lastFp i c s)"
    and init: "P s"
  shows "P (componentsLoop opts fr lastFp i cs s)"
  using init
  by (induction cs arbitrary: i s) (simp_all add: step)

subsection \<open>What a pass never undoes\<close>

lemma netGrows_refl [simp]: "netGrows x x"
  by (simp add: netGrows_def)

lemma list_all2_netGrows_refl [simp]: "list_all2 netGrows ns ns"
  by (simp add: list_all2_same)

lemma netGrows_trans: "netGrows x y \<Longrightarrow> netGrows y z \<Longrightarrow> netGrows x z"
  by (simp add: netGrows_def)

lemma evolves_refl [simp]: "evolves st st"
  by (simp add: evolves_def)

lemma evolves_trans: "evolves a b \<Longrightarrow> evolves b c \<Longrightarrow> evolves a c"
  unfolding evolves_def
  by (auto elim: list_all2_trans [rotated] intro: netGrows_trans)

lemma list_all2_markCurrent: "list_all2 netGrows ns (markCurrent n ns)"
  by (induction ns) (simp_all add: netGrows_def list_all2_same)

lemma evolves_Report [simp]: "evolves st (Report msg sev st)"
  by (simp add: evolves_def Report_def nFootprints_def)

lemma evolves_putFootprint [simp]: "evolves st (putFootprint r f st)"
  by (cases r) (simp_all add: evolves_def putFootprint_def nFootprints_def)

lemma evolves_updateFootprintParameters [simp]:
  "evolves st (updateFootprintParameters opts r c st)"
proof -
  obtain f rp where s: "syncAll (m_isDryRun opts) c (getFootprint st r, m_report st) = (f, rp)"
    by (cases "syncAll (m_isDryRun opts) c (getFootprint st r, m_report st)")
  have "evolves st (st\<lparr>m_report := rp\<rparr>)"
    by (simp add: evolves_def nFootprints_def)
  then have "evolves st (putFootprint r f (st\<lparr>m_report := rp\<rparr>))"
    using evolves_putFootprint evolves_trans by blast
  with s show ?thesis
    by (simp add: updateFootprintParameters_def)
qed

lemma evolves_padConnection:
  "padConnection opts c fpRef pr p st = (p', st') \<Longrightarrow> evolves st st'"
  by (auto simp: padConnection_def Let_def evolves_def nFootprints_def cacheNetname_def
        cachePinFunction_def SetIsCurrent_def Report_def list_all2_markCurrent
      split: if_splits)


lemma evolves_padsLoop:
  assumes "padsLoop opts c fpRef r j ps st = (ps', st')"
  shows "evolves st st'"
proof (rule padsLoop_invariant [where P = "evolves st", OF _ assms])
  show "evolves st st" by simp
next
  fix j p s p' s'
  assume "padConnection opts c fpRef (r, j) p s = (p', s')" and "evolves st s"
  then show "evolves st s'"
    using evolves_padConnection evolves_trans by blast
qed

lemma evolves_updateComponentPadConnections [simp]:
  "evolves st (updateComponentPadConnections opts r c st)"
proof -
  let ?f = "getFootprint st r"
  obtain ps st' where loop: "padsLoop opts c (fp_reference ?f) r 0 (fp_pads ?f) st = (ps, st')"
    by (cases "padsLoop opts c (fp_reference ?f) r 0 (fp_pads ?f) st")
  have "evolves st st'"
    using evolves_padsLoop [OF loop] .
  then have "evolves st (putFootprint r (?f\<lparr>fp_pads := ps\<rparr>) st')"
    using evolves_putFootprint evolves_trans by blast
  with loop show ?thesis
    by (simp add: updateComponentPadConnections_def Let_def)
qed

lemma evolves_replaceComponent:
  "replaceComponent opts fr fi c st = (r, st') \<Longrightarrow> evolves st st'"
  by (auto simp: replaceComponent_def Let_def evolves_def nFootprints_def Report_def
      split: if_splits option.splits)

lemma evolves_addNewComponent:
  "addNewComponent opts fr c st = (r, st') \<Longrightarrow> evolves st st'"
  by (auto simp: addNewComponent_def Let_def evolves_def nFootprints_def Report_def
      split: if_splits option.splits)

lemma evolves_sync:
  "evolves st st1 \<Longrightarrow>
   evolves st (updateComponentPadConnections opts r c (updateFootprintParameters opts r c st1))"
  by (rule evolves_trans [OF _ evolves_updateComponentPadConnections],
      rule evolves_trans [OF _ evolves_updateFootprintParameters])

lemma evolves_matchStep:
  assumes "matchStep opts fr i c fi (mc, fm, st) = (mc', fm', st')"
  shows "evolves st st'"
proof (cases "isMatch opts (getFootprint st (OnBoard fi)) c")
  case False
  with assms show ?thesis
    by (simp add: matchStep_def Let_def)
next
  case True
  let ?f = "getFootprint st (OnBoard fi)"
  show ?thesis
  proof (cases "m_replaceFootprints opts \<and> c_fpid c \<noteq> fp_fpid ?f")
    case False
    with True assms have "st' = updateComponentPadConnections opts (OnBoard fi) c
                                  (updateFootprintParameters opts (OnBoard fi) c st)"
      by (auto simp: matchStep_def Let_def)
    then show ?thesis
      using evolves_sync [OF evolves_refl] by simp
  next
    case replace: True
    obtain r st1 where rep: "replaceComponent opts fr fi c st = (r, st1)"
      by (cases "replaceComponent opts fr fi c st")
    have e1: "evolves st st1"
      using evolves_replaceComponent [OF rep] .
    show ?thesis
    proof (cases r)
      case None
      with True replace rep assms have "st' = st1"
        by (simp add: matchStep_def Let_def)
      with e1 show ?thesis by simp
    next
      case (Some tmp)
      with True replace rep assms
      have "st' = updateComponentPadConnections opts tmp c (updateFootprintParameters opts tmp c st1)"
        by (simp add: matchStep_def Let_def)
      with e1 show ?thesis
        using evolves_sync by simp
    qed
  qed
qed

lemma evolves_matchLoop:
  assumes "matchLoop opts fr lastFp i c fis (mc, fm, st) = (mc', fm', st')"
  shows "evolves st st'"
proof -
  have "evolves st (snd (snd (matchLoop opts fr lastFp i c fis (mc, fm, st))))"
  proof (rule matchLoop_invariant [where P = "\<lambda>s. evolves st (snd (snd s))"])
    show "evolves st (snd (snd (mc, fm, st)))" by simp
  next
    fix fi' and s :: match_state
    assume a: "evolves st (snd (snd s))"
    obtain a1 b1 st1 where s: "s = (a1, b1, st1)" by (cases s)
    obtain a2 b2 st2 where t: "matchStep opts fr i c fi' (a1, b1, st1) = (a2, b2, st2)"
      by (cases "matchStep opts fr i c fi' (a1, b1, st1)")
    from evolves_matchStep [OF t] a s t
    show "evolves st (snd (snd (matchStep opts fr i c fi' s)))"
      using evolves_trans by auto
  qed
  with assms show ?thesis by simp
qed

lemma evolves_processComponent:
  assumes "processComponent opts fr lastFp i c (fm, st) = (fm', st')"
  shows "evolves st st'"
proof (cases "has_property (c_properties c) ''exclude_from_board''")
  case True
  with assms show ?thesis
    by (simp add: processComponent_def)
next
  case False
  let ?st0 = "Report (''Processing symbol '' @ c_reference c @ '':'' @ c_fpid c @ ''.'')
                RPT_SEVERITY_INFO st"
  obtain mc fm1 st1 where
    scan: "matchLoop opts fr lastFp i c [0..<length (b_footprints (m_board st))] (0, fm, ?st0) =
             (mc, fm1, st1)"
    by (cases "matchLoop opts fr lastFp i c [0..<length (b_footprints (m_board st))] (0, fm, ?st0)")
  have e1: "evolves st st1"
    using evolves_matchLoop [OF scan] evolves_Report evolves_trans by blast
  show ?thesis
  proof (cases "mc = 0")
    case mc0: True
    obtain r st2 where add: "addNewComponent opts fr c st1 = (r, st2)"
      by (cases "addNewComponent opts fr c st1")
    have e2: "evolves st st2"
      using evolves_addNewComponent [OF add] e1 evolves_trans by blast
    show ?thesis
    proof (cases r)
      case None
      with False scan mc0 add assms have "st' = st2"
        by (simp add: processComponent_def)
      with e2 show ?thesis by simp
    next
      case (Some tmp)
      with False scan mc0 add assms
      have "st' = updateComponentPadConnections opts tmp c (updateFootprintParameters opts tmp c st2)"
        by (simp add: processComponent_def)
      with e2 show ?thesis
        using evolves_sync by simp
    qed
  next
    case mcpos: False
    with False scan assms
    have "st' = st1 \<or> st' = Report (''Multiple footprints found for '' @ c_reference c @ ''.'')
                               RPT_SEVERITY_ERROR st1"
      by (auto simp: processComponent_def split: if_splits)
    with e1 show ?thesis
      using evolves_Report evolves_trans by blast
  qed
qed

lemma evolves_componentsLoop:
  assumes "componentsLoop opts fr lastFp i cs (fm, st) = (fm', st')"
  shows "evolves st st'"
proof -
  have "evolves st (snd (componentsLoop opts fr lastFp i cs (fm, st)))"
  proof (rule componentsLoop_invariant [where P = "\<lambda>s. evolves st (snd s)"])
    show "evolves st (snd (fm, st))" by simp
  next
    fix i' c' and s :: "(nat \<rightharpoonup> fp_ref) \<times> updater"
    assume a: "evolves st (snd s)"
    obtain b1 st1 where s: "s = (b1, st1)" by (cases s)
    obtain b2 st2 where t: "processComponent opts fr lastFp i' c' (b1, st1) = (b2, st2)"
      by (cases "processComponent opts fr lastFp i' c' (b1, st1)")
    from evolves_processComponent [OF t] a s t
    show "evolves st (snd (processComponent opts fr lastFp i' c' s))"
      using evolves_trans by auto
  qed
  with assms show ?thesis by simp
qed

subsection \<open>The footprints a component is matched against\<close>

lemma matchLoop_unmarked:
  "matchLoop opts fr None i c fis s = fold (matchStep opts fr i c) fis s"
  by (induction fis arbitrary: s) (simp_all add: Let_def)

lemma matchLoop_marker:
  "m \<notin> set pre \<Longrightarrow>
   matchLoop opts fr (Some m) i c (pre @ m # post) s = fold (matchStep opts fr i c) (pre @ [m]) s"
  by (induction pre arbitrary: s) (auto simp: Let_def)

lemma matchLoop_lastPreexisting:
  "matchLoop opts fr (lastPreexisting b) i c [0..<length (b_footprints b)] s =
   fold (matchStep opts fr i c) [0..<length (b_footprints b)] s"
proof (cases "b_footprints b = []")
  case True
  then show ?thesis
    by (simp add: lastPreexisting_def)
next
  case False
  then obtain n where n: "length (b_footprints b) = Suc n"
    by (cases "b_footprints b") simp_all
  have "matchLoop opts fr (Some n) i c ([0..<n] @ n # []) s =
        fold (matchStep opts fr i c) ([0..<n] @ [n]) s"
    by (rule matchLoop_marker) simp
  with False n show ?thesis
    by (simp add: lastPreexisting_def)
qed

text \<open>
  Claim C9. At every point of the loop over the components the board's footprint list has
  the length it had when the pass began, since new footprints are staged in the commit. The
  scan for a component therefore runs \<^verbatim>\<open>matchStep\<close> on exactly the handles of the footprints
  that were on the board before the pass, each once and in board order. When the board was
  not empty, the marker stops the scan after the last of them, whatever handles \<open>new\<close> might
  follow in the list.
\<close>

theorem matching_scans_preexisting_footprints:
  assumes pass: "componentsLoop opts fr (lastPreexisting (m_board st0)) i cs (fm0, st0) = (fm, st)"
  shows "length (b_footprints (m_board st)) = length (b_footprints (m_board st0))
       \<and> matchLoop opts fr (lastPreexisting (m_board st0)) j c
            [0..<length (b_footprints (m_board st))] s =
          fold (matchStep opts fr j c) [0..<length (b_footprints (m_board st0))] s
       \<and> (b_footprints (m_board st0) \<noteq> [] \<longrightarrow>
            matchLoop opts fr (lastPreexisting (m_board st0)) j c
              ([0..<length (b_footprints (m_board st))] @ new) s =
            fold (matchStep opts fr j c) [0..<length (b_footprints (m_board st0))] s)"
proof -
  have len: "length (b_footprints (m_board st)) = length (b_footprints (m_board st0))"
    using evolves_componentsLoop [OF pass] by (simp add: evolves_def nFootprints_def)
  have marked: "matchLoop opts fr (lastPreexisting (m_board st0)) j c
              ([0..<length (b_footprints (m_board st0))] @ new) s =
            fold (matchStep opts fr j c) [0..<length (b_footprints (m_board st0))] s"
    if "b_footprints (m_board st0) \<noteq> []"
  proof -
    from that obtain n where n: "length (b_footprints (m_board st0)) = Suc n"
      by (cases "b_footprints (m_board st0)") simp_all
    have "matchLoop opts fr (Some n) j c ([0..<n] @ n # new) s =
          fold (matchStep opts fr j c) ([0..<n] @ [n]) s"
      by (rule matchLoop_marker) simp
    with that n show ?thesis
      by (simp add: lastPreexisting_def)
  qed
  show ?thesis
    using len marked matchLoop_lastPreexisting [of opts fr "m_board st0" j c s]
    by simp
qed


theorem matching_scans_preexisting_footprints_witness:
  "length (b_footprints (m_board (snd (componentsLoop default_options resistorLibrary
      (lastPreexisting boardR1) 0 [mkComponent ''R2'' ''10k'' [(''1'', ''N1'')]]
      (Map.empty, new_updater boardR1))))) = 1"
  using matching_scans_preexisting_footprints
          [of default_options resistorLibrary "new_updater boardR1" 0
              "[mkComponent ''R2'' ''10k'' [(''1'', ''N1'')]]" Map.empty
              "fst (componentsLoop default_options resistorLibrary
                 (lastPreexisting boardR1) 0 [mkComponent ''R2'' ''10k'' [(''1'', ''N1'')]]
                 (Map.empty, new_updater boardR1))"
              "snd (componentsLoop default_options resistorLibrary
                 (lastPreexisting boardR1) 0 [mkComponent ''R2'' ''10k'' [(''1'', ''N1'')]]
                 (Map.empty, new_updater boardR1))"]
  by (simp add: new_updater_def boardR1_def)

subsection \<open>Stale nets of zones and vias\<close>

text \<open>
  Claim C6, as stated, at a board where a zone and a via are both on the stale net OLD and
  the connected pad is on net NEW: the zone adopts NEW from its snapshot of connected pads,
  but the via is left on OLD with a warning. The updater keeps a snapshot for zones only.
\<close>

theorem via_not_repaired_from_connected_pads:
  "map zone_netname (b_zones (m_board
       (UpdateNetlist default_options noLibrary [compR1New] (new_updater boardStale)))) = [''NEW'']
   \<and> map track_netname (b_tracks (m_board
       (UpdateNetlist default_options noLibrary [compR1New] (new_updater boardStale)))) = [''OLD'']
   \<and> m_report (UpdateNetlist default_options noLibrary [compR1New] (new_updater boardStale)) =
       [(RPT_SEVERITY_INFO, ''Processing symbol R1:R_0603.''),
        (RPT_SEVERITY_WARNING, ''Via connected to unknown net (OLD).''),
        (RPT_SEVERITY_ACTION, ''Reconnect copper zone from OLD to NEW.''),
        (RPT_SEVERITY_ACTION, ''Remove unused net OLD.'')]"
  by code_simp

text \<open>
  Claim C6, amended. For a zone that is on copper and no rule area and whose net name is not
  among those of the netlist, the repair net is the net of the first snapshot pad that
  differs from the zone's, if that name is not empty, and otherwise what the rename map has
  for the zone's net. For a via whose net name is not among those of the netlist, the repair
  net is what the rename map has for the via's net; no snapshot is consulted. With a repair
  net, the reconnection is reported as an Action and, in a committing run that finds the
  net, the zone or via takes it; without one, the zone or via stays as it is, a Warning is
  reported and the warning counter grows by one.
\<close>

theorem zone_and_via_repair_order:
  "(relevantZone z \<and> zone_netname z \<notin> set names \<longrightarrow>
      (zoneRepairNet opts st k z \<noteq> [] \<longrightarrow>
         zoneNet opts names k z st =
           ((if \<not> m_isDryRun opts \<and> findOrAdded st (zoneRepairNet opts st k z) \<noteq> None
             then z\<lparr>zone_netname := zoneRepairNet opts st k z\<rparr> else z),
            st\<lparr>m_report := m_report st @
                 [(RPT_SEVERITY_ACTION, ''Reconnect copper zone from '' @ zone_netname z @ '' to '' @
                     zoneRepairNet opts st k z @ ''.'')]\<rparr>))
    \<and> (zoneRepairNet opts st k z = [] \<longrightarrow>
         zoneNet opts names k z st =
           (z, st\<lparr>m_report := m_report st @
                    [(RPT_SEVERITY_WARNING,
                      ''Copper zone ('' @ zone_netname z @ '') has no pads connected.'')],
                  m_warningCount := m_warningCount st + 1\<rparr>)))
   \<and> (track_isVia v \<and> track_netname v \<notin> set names \<longrightarrow>
      (viaRepairNet st v \<noteq> [] \<longrightarrow>
         viaNet opts names v st =
           ((if \<not> m_isDryRun opts \<and> findOrAdded st (viaRepairNet st v) \<noteq> None
             then v\<lparr>track_netname := viaRepairNet st v\<rparr> else v),
            st\<lparr>m_report := m_report st @
                 [(RPT_SEVERITY_ACTION, ''Reconnect via from '' @ track_netname v @ '' to '' @
                     viaRepairNet st v @ ''.'')]\<rparr>))
    \<and> (viaRepairNet st v = [] \<longrightarrow>
         viaNet opts names v st =
           (v, st\<lparr>m_report := m_report st @
                    [(RPT_SEVERITY_WARNING,
                      ''Via connected to unknown net ('' @ track_netname v @ '').'')],
                  m_warningCount := m_warningCount st + 1\<rparr>)))"
proof -
  have fr: "findOrAdded (Report msg sev st) n = findOrAdded st n" for msg sev n
    by (simp add: findOrAdded_def Report_def split: option.split)
  have zone: "zoneNet opts names k z st =
      (if zoneRepairNet opts st k z \<noteq> [] then
         ((if \<not> m_isDryRun opts \<and> findOrAdded st (zoneRepairNet opts st k z) \<noteq> None
           then z\<lparr>zone_netname := zoneRepairNet opts st k z\<rparr> else z),
          Report (''Reconnect copper zone from '' @ zone_netname z @ '' to '' @
                  zoneRepairNet opts st k z @ ''.'') RPT_SEVERITY_ACTION st)
       else
         (z, (Report (''Copper zone ('' @ zone_netname z @ '') has no pads connected.'')
                RPT_SEVERITY_WARNING st)\<lparr>m_warningCount := m_warningCount st + 1\<rparr>))"
    if "relevantZone z" "zone_netname z \<notin> set names"
    using that
    by (auto simp: zoneNet_def zoneRepairNet_def snapshotNet_def renamedNet_def relevantZone_def
          Let_def fr split: option.split)
  have via: "viaNet opts names v st =
      (if viaRepairNet st v \<noteq> [] then
         ((if \<not> m_isDryRun opts \<and> findOrAdded st (viaRepairNet st v) \<noteq> None
           then v\<lparr>track_netname := viaRepairNet st v\<rparr> else v),
          Report (''Reconnect via from '' @ track_netname v @ '' to '' @
                  viaRepairNet st v @ ''.'') RPT_SEVERITY_ACTION st)
       else
         (v, (Report (''Via connected to unknown net ('' @ track_netname v @ '').'')
                RPT_SEVERITY_WARNING st)\<lparr>m_warningCount := m_warningCount st + 1\<rparr>))"
    if "track_isVia v" "track_netname v \<notin> set names"
    using that
    by (auto simp: viaNet_def viaRepairNet_def renamedNet_def Let_def fr split: option.split)
  show ?thesis
    using zone via by (simp add: Report_def)
qed


theorem zone_and_via_repair_order_witness:
  "relevantZone zoneOld \<and> zone_netname zoneOld \<notin> set [''NEW'']
   \<and> zoneRepairNet default_options (cacheCopperZoneConnections (new_updater boardStale)) 0 zoneOld
       = ''NEW''
   \<and> fst (zoneNet default_options [''NEW''] 0 zoneOld
             (cacheCopperZoneConnections (new_updater boardStale))) =
       zoneOld\<lparr>zone_netname := ''NEW''\<rparr>
   \<and> track_isVia viaOld \<and> track_netname viaOld \<notin> set [''NEW'']
   \<and> viaRepairNet (cacheCopperZoneConnections (new_updater boardStale)) viaOld = []
   \<and> fst (viaNet default_options [''NEW''] viaOld
             (cacheCopperZoneConnections (new_updater boardStale))) = viaOld
   \<and> m_warningCount (snd (viaNet default_options [''NEW''] viaOld
             (cacheCopperZoneConnections (new_updater boardStale)))) = 1"
proof -
  let ?st = "cacheCopperZoneConnections (new_updater boardStale)"
  have z: "relevantZone zoneOld" "zone_netname zoneOld \<notin> set [''NEW'']"
    by (simp_all add: relevantZone_def zoneOld_def)
  have v: "track_isVia viaOld" "track_netname viaOld \<notin> set [''NEW'']"
    by (simp_all add: viaOld_def)
  have zr: "zoneRepairNet default_options ?st 0 zoneOld = ''NEW''"
    by code_simp
  have vr: "viaRepairNet ?st viaOld = []"
    by code_simp
  have fo: "findOrAdded ?st ''NEW'' \<noteq> None"
    by code_simp
  have dry: "\<not> m_isDryRun default_options" "m_warningCount ?st = 0"
    by code_simp+
  show ?thesis
    using zone_and_via_repair_order [of zoneOld "[''NEW'']" default_options ?st 0 viaOld]
      z v zr vr fo dry
    by simp
qed


subsection \<open>What a committing synchronisation leaves\<close>

lemma padConnection_committing:
  "\<not> m_isDryRun opts \<Longrightarrow> fst (padConnection opts c fpRef pr p st) = syncedPad c p"
  by (simp add: padConnection_def syncedPad_def Let_def)

lemma padConnection_footprints:
  "padConnection opts c fpRef pr p st = (p', st') \<Longrightarrow>
   b_footprints (m_board st') = b_footprints (m_board st)
   \<and> c_addedFootprints (m_commit st') = c_addedFootprints (m_commit st)
   \<and> c_removedFootprints (m_commit st') = c_removedFootprints (m_commit st)
   \<and> b_zones (m_board st') = b_zones (m_board st)
   \<and> b_tracks (m_board st') = b_tracks (m_board st)"
  by (auto simp: padConnection_def Let_def cacheNetname_def cachePinFunction_def
        SetIsCurrent_def Report_def split: if_splits)

lemma padsLoop_footprints:
  assumes "padsLoop opts c fpRef r j ps st = (ps', st')"
  shows "b_footprints (m_board st') = b_footprints (m_board st)
   \<and> c_addedFootprints (m_commit st') = c_addedFootprints (m_commit st)
   \<and> c_removedFootprints (m_commit st') = c_removedFootprints (m_commit st)
   \<and> b_zones (m_board st') = b_zones (m_board st)
   \<and> b_tracks (m_board st') = b_tracks (m_board st)"
  by (rule padsLoop_invariant
        [where P = "\<lambda>s. b_footprints (m_board s) = b_footprints (m_board st)
           \<and> c_addedFootprints (m_commit s) = c_addedFootprints (m_commit st)
           \<and> c_removedFootprints (m_commit s) = c_removedFootprints (m_commit st)
           \<and> b_zones (m_board s) = b_zones (m_board st)
           \<and> b_tracks (m_board s) = b_tracks (m_board st)", OF _ assms])
     (use padConnection_footprints in fastforce, simp)

lemma padsLoop_committing:
  "\<not> m_isDryRun opts \<Longrightarrow> fst (padsLoop opts c fpRef r j ps st) = map (syncedPad c) ps"
proof (induction ps arbitrary: j st)
  case Nil
  then show ?case by simp
next
  case (Cons p ps)
  obtain p1 st1 where one: "padConnection opts c fpRef (r, j) p st = (p1, st1)"
    by (cases "padConnection opts c fpRef (r, j) p st")
  obtain ps2 st2 where rest: "padsLoop opts c fpRef r (Suc j) ps st1 = (ps2, st2)"
    by (cases "padsLoop opts c fpRef r (Suc j) ps st1")
  from padConnection_committing [OF Cons.prems, of c fpRef "(r, j)" p st] one
  have "p1 = syncedPad c p" by simp
  moreover from Cons.IH [OF Cons.prems, of "Suc j" st1] rest
  have "ps2 = map (syncedPad c) ps" by simp
  ultimately show ?case
    using one rest by simp
qed

lemma getFootprint_footprints:
  "b_footprints (m_board st') = b_footprints (m_board st) \<Longrightarrow>
   c_addedFootprints (m_commit st') = c_addedFootprints (m_commit st) \<Longrightarrow>
   getFootprint st' r = getFootprint st r"
  by (simp add: getFootprint_def split: fp_ref.split)

lemma updateComponentPadConnections_OnBoard:
  assumes committing: "\<not> m_isDryRun opts"
  shows "b_footprints (m_board (updateComponentPadConnections opts (OnBoard fi) c st)) =
           (b_footprints (m_board st))
             [fi := (b_footprints (m_board st) ! fi)
                      \<lparr>fp_pads := map (syncedPad c) (fp_pads (b_footprints (m_board st) ! fi))\<rparr>]
       \<and> c_addedFootprints (m_commit (updateComponentPadConnections opts (OnBoard fi) c st)) =
           c_addedFootprints (m_commit st)"
proof -
  let ?f = "getFootprint st (OnBoard fi)"
  obtain ps st' where
    loop: "padsLoop opts c (fp_reference ?f) (OnBoard fi) 0 (fp_pads ?f) st = (ps, st')"
    by (cases "padsLoop opts c (fp_reference ?f) (OnBoard fi) 0 (fp_pads ?f) st")
  have ps: "ps = map (syncedPad c) (fp_pads ?f)"
    using padsLoop_committing [OF committing, of c "fp_reference ?f" "OnBoard fi" 0 "fp_pads ?f" st]
      loop by simp
  have "updateComponentPadConnections opts (OnBoard fi) c st =
          putFootprint (OnBoard fi) (?f\<lparr>fp_pads := ps\<rparr>) st'"
    using loop by (simp add: updateComponentPadConnections_def Let_def)
  then show ?thesis
    using padsLoop_footprints [OF loop] ps
    by (simp add: putFootprint_def getFootprint_def)
qed

lemma syncAll_committing:
  "fst (syncAll False c (f, rp)) = syncedFields c f"
  by (simp add: syncedFields_def syncAll_def syncReference_def syncValue_def syncPath_def
        syncProperties_def syncExcludeFromBom_def Let_def)

lemma fp_pads_syncedFields [simp]: "fp_pads (syncedFields c f) = fp_pads f"
  by (simp add: syncedFields_def syncAll_def syncReference_def syncValue_def syncPath_def
        syncProperties_def syncExcludeFromBom_def Let_def)

lemma updateFootprintParameters_OnBoard:
  assumes committing: "\<not> m_isDryRun opts"
  shows "b_footprints (m_board (updateFootprintParameters opts (OnBoard fi) c st)) =
           (b_footprints (m_board st))[fi := syncedFields c (b_footprints (m_board st) ! fi)]
       \<and> c_addedFootprints (m_commit (updateFootprintParameters opts (OnBoard fi) c st)) =
           c_addedFootprints (m_commit st)"
proof -
  let ?f = "getFootprint st (OnBoard fi)"
  obtain f rp where s: "syncAll False c (?f, m_report st) = (f, rp)"
    by (cases "syncAll False c (?f, m_report st)")
  with syncAll_committing [of c ?f "m_report st"] have "f = syncedFields c ?f"
    by simp
  with s committing show ?thesis
    by (simp add: updateFootprintParameters_def putFootprint_def getFootprint_def)
qed


lemma matchStep_committing:
  assumes committing: "\<not> m_isDryRun opts"
    and keep: "isMatch opts (b_footprints (m_board st) ! fi) c \<longrightarrow>
               \<not> (m_replaceFootprints opts \<and> c_fpid c \<noteq> fp_fpid (b_footprints (m_board st) ! fi))"
    and step: "matchStep opts fr i c fi (mc, fm, st) = (mc', fm', st')"
  shows "b_footprints (m_board st') =
           (b_footprints (m_board st))[fi := syncIfMatch opts c (b_footprints (m_board st) ! fi)]
       \<and> c_addedFootprints (m_commit st') = c_addedFootprints (m_commit st)
       \<and> mc' = (if isMatch opts (b_footprints (m_board st) ! fi) c then mc + 1 else mc)
       \<and> fm' = (if isMatch opts (b_footprints (m_board st) ! fi) c then fm(i \<mapsto> OnBoard fi) else fm)"
proof (cases "isMatch opts (b_footprints (m_board st) ! fi) c")
  case False
  with step show ?thesis
    by (simp add: matchStep_def Let_def getFootprint_def syncIfMatch_def)
next
  case True
  let ?fps = "b_footprints (m_board st)"
  let ?st1 = "updateFootprintParameters opts (OnBoard fi) c st"
  let ?st2 = "updateComponentPadConnections opts (OnBoard fi) c ?st1"
  from True keep step have res: "mc' = mc + 1" "fm' = fm(i \<mapsto> OnBoard fi)" "st' = ?st2"
    by (auto simp: matchStep_def Let_def getFootprint_def)
  have one: "b_footprints (m_board ?st1) = ?fps[fi := syncedFields c (?fps ! fi)]"
    "c_addedFootprints (m_commit ?st1) = c_addedFootprints (m_commit st)"
    using updateFootprintParameters_OnBoard [OF committing, of fi c st] by simp_all
  have two: "b_footprints (m_board ?st2) =
      (b_footprints (m_board ?st1))
        [fi := (b_footprints (m_board ?st1) ! fi)
                  \<lparr>fp_pads := map (syncedPad c) (fp_pads (b_footprints (m_board ?st1) ! fi))\<rparr>]"
    "c_addedFootprints (m_commit ?st2) = c_addedFootprints (m_commit ?st1)"
    using updateComponentPadConnections_OnBoard [OF committing, of fi c ?st1] by simp_all
  have "b_footprints (m_board ?st2) = ?fps[fi := syncFootprint c (?fps ! fi)]"
  proof (cases "fi < length ?fps")
    case True
    then show ?thesis
      unfolding two(1) one(1) by (simp add: syncFootprint_def)
  next
    case False
    then show ?thesis
      unfolding two(1) one(1) by (simp add: list_update_beyond)
  qed
  with True res two(2) one(2) show ?thesis
    by (simp add: syncIfMatch_def)
qed

lemma scan_committing:
  assumes committing: "\<not> m_isDryRun opts"
    and keep: "noExchange opts c (b_footprints (m_board st))"
  shows "k \<le> length (b_footprints (m_board st)) \<Longrightarrow>
         fold (matchStep opts fr i c) [0..<k] (mc, fm, st) = (mc', fm', st') \<Longrightarrow>
         b_footprints (m_board st') =
           map (syncIfMatch opts c) (take k (b_footprints (m_board st))) @
           drop k (b_footprints (m_board st))
       \<and> c_addedFootprints (m_commit st') = c_addedFootprints (m_commit st)
       \<and> mc' = mc + length (filter (\<lambda>f. isMatch opts f c) (take k (b_footprints (m_board st))))
       \<and> (\<forall>fi < k. isMatch opts (b_footprints (m_board st) ! fi) c
             \<and> (\<forall>fj. fi < fj \<and> fj < k \<longrightarrow> \<not> isMatch opts (b_footprints (m_board st) ! fj) c)
             \<longrightarrow> fm' i = Some (OnBoard fi))"
proof (induction k arbitrary: mc' fm' st')
  case 0
  then show ?case by simp
next
  case (Suc k)
  let ?fps = "b_footprints (m_board st)"
  obtain mc1 fm1 st1 where
    pre: "fold (matchStep opts fr i c) [0..<k] (mc, fm, st) = (mc1, fm1, st1)"
    by (cases "fold (matchStep opts fr i c) [0..<k] (mc, fm, st)")
  from Suc.prems have k: "k < length ?fps" by simp
  from Suc.IH [OF _ pre] k
  have ih: "b_footprints (m_board st1) = map (syncIfMatch opts c) (take k ?fps) @ drop k ?fps"
    "c_addedFootprints (m_commit st1) = c_addedFootprints (m_commit st)"
    "mc1 = mc + length (filter (\<lambda>f. isMatch opts f c) (take k ?fps))"
    "\<forall>fi < k. isMatch opts (?fps ! fi) c
        \<and> (\<forall>fj. fi < fj \<and> fj < k \<longrightarrow> \<not> isMatch opts (?fps ! fj) c) \<longrightarrow> fm1 i = Some (OnBoard fi)"
    by simp_all
  have at_k: "b_footprints (m_board st1) ! k = ?fps ! k"
    using k by (simp add: ih(1) nth_append)
  from Suc.prems(2) pre have step: "matchStep opts fr i c k (mc1, fm1, st1) = (mc', fm', st')"
    by simp
  have keep_k: "isMatch opts (b_footprints (m_board st1) ! k) c \<longrightarrow>
      \<not> (m_replaceFootprints opts \<and> c_fpid c \<noteq> fp_fpid (b_footprints (m_board st1) ! k))"
    using keep k unfolding at_k noExchange_def by simp
  note res = matchStep_committing [OF committing keep_k step, unfolded at_k]
  have fps': "b_footprints (m_board st') =
      map (syncIfMatch opts c) (take (Suc k) ?fps) @ drop (Suc k) ?fps"
  proof -
    have "(map (syncIfMatch opts c) (take k ?fps) @ drop k ?fps)[k := syncIfMatch opts c (?fps ! k)]
        = map (syncIfMatch opts c) (take k ?fps) @ (drop k ?fps)[0 := syncIfMatch opts c (?fps ! k)]"
      using k by (simp add: list_update_append)
    also have "(drop k ?fps)[0 := syncIfMatch opts c (?fps ! k)] =
               syncIfMatch opts c (?fps ! k) # drop (Suc k) ?fps"
      using k by (simp add: Cons_nth_drop_Suc [symmetric])
    finally show ?thesis
      using res k by (simp add: ih(1) take_Suc_conv_app_nth)
  qed
  have count: "mc' = mc + length (filter (\<lambda>f. isMatch opts f c) (take (Suc k) ?fps))"
    using res k ih(3) by (simp add: take_Suc_conv_app_nth)
  have lastm: "\<forall>fi < Suc k. isMatch opts (?fps ! fi) c
        \<and> (\<forall>fj. fi < fj \<and> fj < Suc k \<longrightarrow> \<not> isMatch opts (?fps ! fj) c) \<longrightarrow> fm' i = Some (OnBoard fi)"
  proof (intro allI impI)
    fix fi
    assume fi: "fi < Suc k"
      and m: "isMatch opts (?fps ! fi) c
        \<and> (\<forall>fj. fi < fj \<and> fj < Suc k \<longrightarrow> \<not> isMatch opts (?fps ! fj) c)"
    show "fm' i = Some (OnBoard fi)"
    proof (cases "fi = k")
      case True
      with m res show ?thesis by simp
    next
      case False
      with fi have lt: "fi < k" by simp
      with m have nk: "\<not> isMatch opts (?fps ! k) c" by simp
      from m lt have "fm1 i = Some (OnBoard fi)"
        using ih(4) by simp
      with nk res show ?thesis by simp
    qed
  qed
  from fps' count lastm res ih(2) show ?case
    by simp
qed


subsection \<open>Several footprints matching one component\<close>

text \<open>
  Claim C5, as stated, at a board with two footprints R1 and a component R1 of another
  value: the value of both footprints is changed, not of the first alone, and the Error that
  is reported leaves the error counter at 0.
\<close>

theorem every_matching_footprint_is_updated:
  "map fp_value (b_footprints (m_board (new_updater boardTwoR1))) = [''1k'', ''1k'']
   \<and> map fp_value (b_footprints (m_board
        (UpdateNetlist default_options noLibrary [compR1Value2k] (new_updater boardTwoR1)))) =
       [''2k'', ''2k'']
   \<and> m_report (UpdateNetlist default_options noLibrary [compR1Value2k] (new_updater boardTwoR1)) =
       [(RPT_SEVERITY_INFO, ''Processing symbol R1:R_0603.''),
        (RPT_SEVERITY_ACTION, ''Change R1 value from 1k to 2k.''),
        (RPT_SEVERITY_ACTION, ''Change R1 value from 1k to 2k.''),
        (RPT_SEVERITY_ERROR, ''Multiple footprints found for R1.'')]
   \<and> m_errorCount (UpdateNetlist default_options noLibrary [compR1Value2k]
        (new_updater boardTwoR1)) = 0"
  by code_simp


text \<open>
  Claim C5, amended. When two or more footprints of the board match a component (by
  reference, or by path when lookupByTimestamp is set) and the scan exchanges none of them,
  a committing pass leaves every matching footprint synchronised with the component and
  every other footprint as it was, stages nothing, ends the component's report with the
  Error for multiple footprints, and records the last match in board order as the
  component's footprint.
\<close>

theorem ambiguous_match_updates_every_match:
  assumes committing: "\<not> m_isDryRun opts"
    and notExcluded: "\<not> has_property (c_properties c) ''exclude_from_board''"
    and keep: "noExchange opts c (b_footprints (m_board st))"
    and ambiguous: "2 \<le> length (filter (\<lambda>f. isMatch opts f c) (b_footprints (m_board st)))"
    and run: "processComponent opts fr (lastPreexisting (m_board st)) i c (fm, st) = (fm', st')"
  shows "b_footprints (m_board st') = map (syncIfMatch opts c) (b_footprints (m_board st))
       \<and> c_addedFootprints (m_commit st') = c_addedFootprints (m_commit st)
       \<and> (\<exists>rp. m_report st' =
             rp @ [(RPT_SEVERITY_ERROR, ''Multiple footprints found for '' @ c_reference c @ ''.'')])
       \<and> (\<forall>fi < length (b_footprints (m_board st)).
             isMatch opts (b_footprints (m_board st) ! fi) c
             \<and> (\<forall>fj. fi < fj \<and> fj < length (b_footprints (m_board st))
                   \<longrightarrow> \<not> isMatch opts (b_footprints (m_board st) ! fj) c)
             \<longrightarrow> fm' i = Some (OnBoard fi))"
proof -
  let ?fps = "b_footprints (m_board st)"
  let ?st0 = "Report (''Processing symbol '' @ c_reference c @ '':'' @ c_fpid c @ ''.'')
                RPT_SEVERITY_INFO st"
  obtain mc fm1 st1 where
    scan: "fold (matchStep opts fr i c) [0..<length ?fps] (0, fm, ?st0) = (mc, fm1, st1)"
    by (cases "fold (matchStep opts fr i c) [0..<length ?fps] (0, fm, ?st0)")
  have loop: "matchLoop opts fr (lastPreexisting (m_board st)) i c [0..<length ?fps] (0, fm, ?st0) =
              (mc, fm1, st1)"
    using matchLoop_lastPreexisting [of opts fr "m_board st" i c "(0, fm, ?st0)"] scan by simp
  have keep0: "noExchange opts c (b_footprints (m_board ?st0))"
    using keep by simp
  have "length ?fps \<le> length (b_footprints (m_board ?st0))"
    by simp
  from scan_committing [OF committing keep0 this, of fr i 0 fm mc fm1 st1] scan
  have res: "b_footprints (m_board st1) = map (syncIfMatch opts c) ?fps"
    "c_addedFootprints (m_commit st1) = c_addedFootprints (m_commit st)"
    "mc = length (filter (\<lambda>f. isMatch opts f c) ?fps)"
    "\<forall>fi < length ?fps. isMatch opts (?fps ! fi) c
        \<and> (\<forall>fj. fi < fj \<and> fj < length ?fps \<longrightarrow> \<not> isMatch opts (?fps ! fj) c)
        \<longrightarrow> fm1 i = Some (OnBoard fi)"
    by simp_all
  from ambiguous res(3) have mc: "mc \<noteq> 0" "mc > 1"
    by linarith+
  from run notExcluded loop mc
  have "fm' = fm1"
    "st' = Report (''Multiple footprints found for '' @ c_reference c @ ''.'') RPT_SEVERITY_ERROR st1"
    by (simp_all add: processComponent_def)
  with res show ?thesis
    by (simp add: Report_def)
qed

theorem ambiguous_match_updates_every_match_witness:
  "2 \<le> length (filter (\<lambda>f. isMatch default_options f compR1Value2k) (b_footprints boardTwoR1))
   \<and> map fp_value (b_footprints (m_board (snd (processComponent default_options noLibrary
         (lastPreexisting boardTwoR1) 0 compR1Value2k (Map.empty, new_updater boardTwoR1))))) =
       [''2k'', ''2k'']
   \<and> fst (processComponent default_options noLibrary
         (lastPreexisting boardTwoR1) 0 compR1Value2k (Map.empty, new_updater boardTwoR1)) 0 =
       Some (OnBoard 1)"
proof -
  let ?run = "processComponent default_options noLibrary
         (lastPreexisting boardTwoR1) 0 compR1Value2k (Map.empty, new_updater boardTwoR1)"
  have b: "m_board (new_updater boardTwoR1) = boardTwoR1"
    by (simp add: new_updater_def)
  have h1: "\<not> m_isDryRun default_options"
    by (simp add: default_options_def)
  have h2: "\<not> has_property (c_properties compR1Value2k) ''exclude_from_board''"
    by (simp add: compR1Value2k_def mkComponent_def has_property_def)
  have h3: "noExchange default_options compR1Value2k (b_footprints boardTwoR1)"
    by (simp add: noExchange_def compR1Value2k_def mkComponent_def boardTwoR1_def mkFootprint_def)
  have h4: "2 \<le> length (filter (\<lambda>f. isMatch default_options f compR1Value2k)
                         (b_footprints boardTwoR1))"
    by code_simp
  have m: "isMatch default_options (b_footprints boardTwoR1 ! 1) compR1Value2k"
    "length (b_footprints boardTwoR1) = 2"
    by code_simp+
  have v: "map fp_value (map (syncIfMatch default_options compR1Value2k) (b_footprints boardTwoR1))
      = [''2k'', ''2k'']"
    by code_simp
  from ambiguous_match_updates_every_match
         [of default_options compR1Value2k "new_updater boardTwoR1" noLibrary 0 Map.empty
             "fst ?run" "snd ?run", unfolded b, OF h1 h2 h3 h4]
  have res: "b_footprints (m_board (snd ?run)) =
          map (syncIfMatch default_options compR1Value2k) (b_footprints boardTwoR1)"
    "\<forall>fi < length (b_footprints boardTwoR1).
       isMatch default_options (b_footprints boardTwoR1 ! fi) compR1Value2k
       \<and> (\<forall>fj. fi < fj \<and> fj < length (b_footprints boardTwoR1)
             \<longrightarrow> \<not> isMatch default_options (b_footprints boardTwoR1 ! fj) compR1Value2k)
       \<longrightarrow> fst ?run 0 = Some (OnBoard fi)"
    by simp_all
  have "\<forall>fj. Suc 0 < fj \<and> fj < length (b_footprints boardTwoR1)
          \<longrightarrow> \<not> isMatch default_options (b_footprints boardTwoR1 ! fj) compR1Value2k"
    unfolding m(2) by auto
  with res(2) [THEN spec, of "Suc 0"] m have "fst ?run 0 = Some (OnBoard 1)"
    by simp
  with res(1) v h4 show ?thesis
    by simp
qed


subsection \<open>Known and live nets\<close>

lemma liveNet_knownNet: "liveNet st n \<Longrightarrow> knownNet st n"
  by (auto simp: liveNet_def knownNet_def)

lemma netGrows_names:
  "list_all2 netGrows ns ns' \<Longrightarrow> map net_name ns' = map net_name ns"
  by (induction rule: list_all2_induct) (simp_all add: netGrows_def)

lemma netGrows_current:
  assumes "list_all2 netGrows ns ns'" and "x \<in> set ns" and "net_isCurrent x"
  shows "\<exists>y \<in> set ns'. net_name y = net_name x \<and> net_code y = net_code x \<and> net_isCurrent y"
  using assms
  by (induction rule: list_all2_induct) (auto simp: netGrows_def)

lemma evolves_knownNet: "evolves st st' \<Longrightarrow> knownNet st n \<Longrightarrow> knownNet st' n"
proof -
  assume e: "evolves st st'" and k: "knownNet st n"
  from e have "map net_name (b_nets (m_board st')) = map net_name (b_nets (m_board st))"
    by (simp add: evolves_def netGrows_names)
  then have "net_name ` set (b_nets (m_board st')) = net_name ` set (b_nets (m_board st))"
    by (metis set_map)
  with e k show ?thesis
    by (auto simp: knownNet_def evolves_def)
qed

lemma evolves_liveNet: "evolves st st' \<Longrightarrow> liveNet st n \<Longrightarrow> liveNet st' n"
proof -
  assume e: "evolves st st'" and l: "liveNet st n"
  from e have g: "list_all2 netGrows (b_nets (m_board st)) (b_nets (m_board st'))"
    and s: "set (c_addedNets (m_commit st)) \<subseteq> set (c_addedNets (m_commit st'))"
    by (simp_all add: evolves_def)
  from l consider "n = []"
    | x where "x \<in> set (b_nets (m_board st))" "net_name x = n" "net_isCurrent x"
    | "n \<in> net_name ` set (c_addedNets (m_commit st))"
    by (auto simp: liveNet_def)
  then show ?thesis
  proof cases
    case 1
    then show ?thesis by (simp add: liveNet_def)
  next
    case 2
    with netGrows_current [OF g] show ?thesis
      by (fastforce simp: liveNet_def)
  next
    case 3
    with s show ?thesis by (auto simp: liveNet_def)
  qed
qed

lemma evolves_padsOn_known: "evolves st st' \<Longrightarrow> padsOn (knownNet st) f \<Longrightarrow> padsOn (knownNet st') f"
  by (simp add: padsOn_def evolves_knownNet)

lemma evolves_padsOn_live: "evolves st st' \<Longrightarrow> padsOn (liveNet st) f \<Longrightarrow> padsOn (liveNet st') f"
  by (simp add: padsOn_def evolves_liveNet)

lemma markCurrent_found:
  "find (\<lambda>x. net_name x = n) ns = Some x \<Longrightarrow>
   \<exists>y \<in> set (markCurrent n ns). net_name y = n \<and> net_isCurrent y"
  by (induction ns) (auto split: if_splits)

lemma find_None_name: "find (\<lambda>x. net_name x = n) ns = None \<Longrightarrow> n \<notin> net_name ` set ns"
  by (auto simp: find_None_iff)

lemma markCurrent_live:
  "n \<in> net_name ` set ns \<Longrightarrow> \<exists>y \<in> set (markCurrent n ns). net_name y = n \<and> net_isCurrent y"
  by (induction ns) auto


lemma addedNetsStaged_Report [simp]: "addedNetsStaged (Report msg sev st) = addedNetsStaged st"
  by (simp add: addedNetsStaged_def Report_def)

lemma liveNet_Report [simp]: "liveNet (Report msg sev st) n = liveNet st n"
  by (simp add: liveNet_def)

lemma knownNet_Report [simp]: "knownNet (Report msg sev st) n = knownNet st n"
  by (simp add: knownNet_def)

lemma padConnection_live:
  assumes committing: "\<not> m_isDryRun opts"
    and staged: "addedNetsStaged st"
    and known: "knownNet st (pad_netname p)"
    and step: "padConnection opts c fpRef pr p st = (p', st')"
  shows "liveNet st' (pad_netname p') \<and> addedNetsStaged st'"
proof -
  let ?net = "GetNet c (pad_name p)"
  let ?name = "cn_netName ?net"
  have p': "p' = syncedPad c p"
    using padConnection_committing [OF committing, of c fpRef pr p st] step by simp
  show ?thesis
  proof (cases "IsValid ?net \<and> pad_onCopper p")
    case False
    with p' have "pad_netname p' = []"
      by (auto simp: syncedPad_def Let_def)
    moreover from False step committing staged have "addedNetsStaged st'"
      by (auto simp: padConnection_def Let_def split: if_splits)
    ultimately show ?thesis
      by (simp add: liveNet_def)
  next
    case True
    with p' have name: "pad_netname p' = ?name"
      by (simp add: syncedPad_def Let_def)
    show ?thesis
    proof (cases "FindNet (m_board st) ?name")
      case (Some x)
      let ?st2 = "st\<lparr>m_board := SetIsCurrent ?name (m_board st)\<rparr>"
      from Some have live2: "liveNet ?st2 ?name"
        using markCurrent_found [of ?name "b_nets (m_board st)" x]
        by (auto simp: liveNet_def FindNet_def SetIsCurrent_def)
      have staged2: "addedNetsStaged ?st2"
        using staged by (simp add: addedNetsStaged_def)
      from True Some step committing
      have "st' = ?st2 \<or> (\<exists>msg. st' = Report msg RPT_SEVERITY_ACTION ?st2)
          \<or> (\<exists>msg old. st' = Report msg RPT_SEVERITY_ACTION
                (?st2\<lparr>m_oldToNewNets := (m_oldToNewNets ?st2)(old \<mapsto> ?name)\<rparr>))"
        by (auto simp: padConnection_def Let_def split: if_splits)
      then have "liveNet st' ?name \<and> addedNetsStaged st'"
        using live2 staged2
        by (auto simp: liveNet_def addedNetsStaged_def Report_def)
      with name show ?thesis by simp
    next
      case None
      then have notin: "?name \<notin> net_name ` set (b_nets (m_board st))"
        by (simp add: FindNet_def find_None_name)
      show ?thesis
      proof (cases "pad_netname p = ?name")
        case same: True
        with True None step committing have "st' = st"
          by (simp add: padConnection_def Let_def)
        moreover from known same notin have "liveNet st ?name"
          by (auto simp: knownNet_def liveNet_def)
        ultimately show ?thesis
          using name staged by simp
      next
        case differ: False
        show ?thesis
        proof (cases "m_addedNets st ?name")
          case added: (Some y)
          with staged have l: "liveNet st ?name"
            by (auto simp: addedNetsStaged_def liveNet_def)
          from True None differ added step committing
          have "(\<exists>msg. st' = Report msg RPT_SEVERITY_ACTION st)
            \<or> (\<exists>msg old. st' = Report msg RPT_SEVERITY_ACTION
                  (st\<lparr>m_oldToNewNets := (m_oldToNewNets st)(old \<mapsto> ?name)\<rparr>))"
            by (auto simp: padConnection_def Let_def split: if_splits)
          then have "liveNet st' ?name \<and> addedNetsStaged st'"
            using l staged by (auto simp: liveNet_def addedNetsStaged_def Report_def)
          with name show ?thesis by simp
        next
          case fresh: None
          let ?st3 = "Report (''Add net '' @ ?name @ ''.'') RPT_SEVERITY_ACTION
             (st\<lparr>m_commit := (m_commit st)\<lparr>c_addedNets :=
                    c_addedNets (m_commit st) @ [new_NETINFO_ITEM ?name]\<rparr>,
                 m_addedNets := (m_addedNets st)(?name \<mapsto> new_NETINFO_ITEM ?name)\<rparr>)"
          have l3: "liveNet ?st3 ?name"
            by (simp add: liveNet_def new_NETINFO_ITEM_def)
          have s3: "addedNetsStaged ?st3"
            using staged
            by (auto simp: addedNetsStaged_def new_NETINFO_ITEM_def Report_def split: if_splits)
          from True None differ fresh step committing
          have "(\<exists>msg. st' = Report msg RPT_SEVERITY_ACTION ?st3)
            \<or> (\<exists>msg old. st' = Report msg RPT_SEVERITY_ACTION
                  (?st3\<lparr>m_oldToNewNets := (m_oldToNewNets ?st3)(old \<mapsto> ?name)\<rparr>))"
            by (auto simp: padConnection_def Let_def Report_def split: if_splits)
          then have "liveNet st' ?name \<and> addedNetsStaged st'"
            using l3 s3 by (auto simp: liveNet_def addedNetsStaged_def Report_def)
          with name show ?thesis by simp
        qed
      qed
    qed
  qed
qed


lemma padsLoop_live:
  assumes committing: "\<not> m_isDryRun opts"
  shows "addedNetsStaged st \<Longrightarrow> \<forall>p \<in> set ps. knownNet st (pad_netname p) \<Longrightarrow>
         padsLoop opts c fpRef r j ps st = (ps', st') \<Longrightarrow>
         (\<forall>p \<in> set ps'. liveNet st' (pad_netname p)) \<and> addedNetsStaged st'"
proof (induction ps arbitrary: j st ps' st')
  case Nil
  then show ?case by simp
next
  case (Cons p ps)
  obtain p1 st1 where one: "padConnection opts c fpRef (r, j) p st = (p1, st1)"
    by (cases "padConnection opts c fpRef (r, j) p st")
  obtain ps2 st2 where rest: "padsLoop opts c fpRef r (Suc j) ps st1 = (ps2, st2)"
    by (cases "padsLoop opts c fpRef r (Suc j) ps st1")
  from Cons.prems(3) one rest have res: "ps' = p1 # ps2" "st' = st2"
    by simp_all
  from Cons.prems(2) have kp: "knownNet st (pad_netname p)"
    by simp
  from padConnection_live [OF committing Cons.prems(1) kp one]
  have l1: "liveNet st1 (pad_netname p1)" and s1: "addedNetsStaged st1"
    by simp_all
  have e1: "evolves st st1"
    using evolves_padConnection [OF one] .
  have k1: "\<forall>q \<in> set ps. knownNet st1 (pad_netname q)"
    using Cons.prems(2) evolves_knownNet [OF e1] by simp
  from Cons.IH [OF s1 k1 rest]
  have l2: "\<forall>q \<in> set ps2. liveNet st2 (pad_netname q)" and s2: "addedNetsStaged st2"
    by simp_all
  have "liveNet st2 (pad_netname p1)"
    using evolves_liveNet [OF evolves_padsLoop [OF rest] l1] .
  with l2 s2 res show ?case
    by simp
qed

lemma fp_pads_syncAll: "fp_pads (fst (syncAll dry c (f, rp))) = fp_pads f"
  by (simp add: syncAll_def syncReference_def syncValue_def syncPath_def
        syncProperties_def syncExcludeFromBom_def Let_def)

lemma map_fp_pads_update:
  "fp_pads f' = fp_pads (fps ! i) \<Longrightarrow> map fp_pads (fps[i := f']) = map fp_pads fps"
proof (cases "i < length fps")
  case True
  assume "fp_pads f' = fp_pads (fps ! i)"
  with True have "(map fp_pads fps)[i := fp_pads f'] = (map fp_pads fps)[i := map fp_pads fps ! i]"
    by simp
  then show ?thesis
    by (simp add: map_update)
next
  case False
  then show ?thesis
    by (simp add: list_update_beyond)
qed

lemma updateFootprintParameters_pads:
  "map fp_pads (b_footprints (m_board (updateFootprintParameters opts r c st))) =
     map fp_pads (b_footprints (m_board st))
   \<and> map fp_pads (c_addedFootprints (m_commit (updateFootprintParameters opts r c st))) =
     map fp_pads (c_addedFootprints (m_commit st))
   \<and> b_nets (m_board (updateFootprintParameters opts r c st)) = b_nets (m_board st)
   \<and> c_addedNets (m_commit (updateFootprintParameters opts r c st)) = c_addedNets (m_commit st)
   \<and> c_removedFootprints (m_commit (updateFootprintParameters opts r c st)) =
       c_removedFootprints (m_commit st)
   \<and> m_addedNets (updateFootprintParameters opts r c st) = m_addedNets st"
proof -
  obtain f rp where s: "syncAll (m_isDryRun opts) c (getFootprint st r, m_report st) = (f, rp)"
    by (cases "syncAll (m_isDryRun opts) c (getFootprint st r, m_report st)")
  with fp_pads_syncAll [of "m_isDryRun opts" c "getFootprint st r" "m_report st"]
  have pads: "fp_pads f = fp_pads (getFootprint st r)"
    by simp
  show ?thesis
  proof (cases r)
    case (OnBoard i)
    with s pads show ?thesis
      by (simp add: updateFootprintParameters_def putFootprint_def getFootprint_def
            map_fp_pads_update)
  next
    case (Staged k)
    with s pads show ?thesis
      by (simp add: updateFootprintParameters_def putFootprint_def getFootprint_def
            map_fp_pads_update)
  qed
qed

lemma padsOn_map:
  "(\<forall>f \<in> set fps. padsOn P f) = (\<forall>ps \<in> set (map fp_pads fps). \<forall>p \<in> set ps. P (pad_netname p))"
  by (auto simp: padsOn_def)

lemma knownNet_cong:
  "b_nets (m_board st') = b_nets (m_board st) \<Longrightarrow>
   c_addedNets (m_commit st') = c_addedNets (m_commit st) \<Longrightarrow> knownNet st' = knownNet st"
  by (rule ext) (simp add: knownNet_def)

lemma liveNet_cong:
  "b_nets (m_board st') = b_nets (m_board st) \<Longrightarrow>
   c_addedNets (m_commit st') = c_addedNets (m_commit st) \<Longrightarrow> liveNet st' = liveNet st"
  by (rule ext) (simp add: liveNet_def)

lemma addedNetsStaged_cong:
  "m_addedNets st' = m_addedNets st \<Longrightarrow>
   c_addedNets (m_commit st') = c_addedNets (m_commit st) \<Longrightarrow>
   addedNetsStaged st' = addedNetsStaged st"
  by (simp add: addedNetsStaged_def)



subsection \<open>Nets bound to pads stay in the registry\<close>

lemma padsOn_cong: "fp_pads f' = fp_pads f \<Longrightarrow> padsOn P f' = padsOn P f"
  by (simp add: padsOn_def)

lemma padsOn_all_map:
  assumes "map fp_pads fps' = map fp_pads fps"
  shows "(\<forall>f \<in> set fps'. padsOn P f) = (\<forall>f \<in> set fps. padsOn P f)"
proof -
  have "(\<forall>f \<in> set fps'. padsOn P f) =
        (\<forall>ps \<in> set (map fp_pads fps'). \<forall>p \<in> set ps. P (pad_netname p))"
    by (rule padsOn_map)
  also have "\<dots> = (\<forall>ps \<in> set (map fp_pads fps). \<forall>p \<in> set ps. P (pad_netname p))"
    by (simp only: assms)
  also have "\<dots> = (\<forall>f \<in> set fps. padsOn P f)"
    by (rule padsOn_map [symmetric])
  finally show ?thesis .
qed

lemma padsOn_nth_map:
  assumes "map fp_pads fps' = map fp_pads fps" and "k < length fps"
  shows "padsOn P (fps' ! k) = padsOn P (fps ! k)"
proof -
  from assms have "length fps' = length fps"
    by (metis length_map)
  with assms have "fp_pads (fps' ! k) = fp_pads (fps ! k)"
    by (metis nth_map)
  then show ?thesis
    by (rule padsOn_cong)
qed

lemma updateFootprintParameters_preSync:
  assumes pre: "preSync st r"
  shows "preSync (updateFootprintParameters opts r' c st) r"
proof -
  let ?st' = "updateFootprintParameters opts r' c st"
  note fr = updateFootprintParameters_pads [of opts r' c st]
  from fr have mb: "map fp_pads (b_footprints (m_board ?st')) = map fp_pads (b_footprints (m_board st))"
    and ms: "map fp_pads (c_addedFootprints (m_commit ?st')) =
             map fp_pads (c_addedFootprints (m_commit st))"
    by simp_all
  have k: "knownNet ?st' = knownNet st"
    by (rule knownNet_cong) (use fr in simp_all)
  have l: "liveNet ?st' = liveNet st"
    by (rule liveNet_cong) (use fr in simp_all)
  have a: "addedNetsStaged ?st' = addedNetsStaged st"
    by (rule addedNetsStaged_cong) (use fr in simp_all)
  have lenb: "length (b_footprints (m_board ?st')) = length (b_footprints (m_board st))"
    using mb by (metis length_map)
  have lens: "length (c_addedFootprints (m_commit ?st')) = length (c_addedFootprints (m_commit st))"
    using ms by (metis length_map)
  have wf: "wfRef ?st' r"
    using pre lenb lens by (cases r) (simp_all add: preSync_def wfRef_def)
  have c1: "\<forall>f \<in> set (b_footprints (m_board ?st')). padsOn (knownNet ?st') f"
    unfolding k padsOn_all_map [OF mb] using pre by (simp add: preSync_def)
  have c2: "\<forall>f \<in> set (c_addedFootprints (m_commit ?st')). padsOn (knownNet ?st') f"
    unfolding k padsOn_all_map [OF ms] using pre by (simp add: preSync_def)
  have c3: "\<forall>k < length (c_addedFootprints (m_commit ?st')).
            Staged k \<noteq> r \<longrightarrow> padsOn (liveNet ?st') (c_addedFootprints (m_commit ?st') ! k)"
  proof (intro allI impI)
    fix j
    assume j: "j < length (c_addedFootprints (m_commit ?st'))" and ne: "Staged j \<noteq> r"
    from j lens have j': "j < length (c_addedFootprints (m_commit st))"
      by simp
    with pre ne have "padsOn (liveNet st) (c_addedFootprints (m_commit st) ! j)"
      by (simp add: preSync_def)
    then show "padsOn (liveNet ?st') (c_addedFootprints (m_commit ?st') ! j)"
      unfolding l padsOn_nth_map [OF ms j'] .
  qed
  from pre have "addedNetsStaged ?st'"
    unfolding a by (simp add: preSync_def)
  with wf c1 c2 c3 show ?thesis
    unfolding preSync_def by blast
qed


lemma putFootprint_frame:
  "b_nets (m_board (putFootprint r f st)) = b_nets (m_board st)
   \<and> c_addedNets (m_commit (putFootprint r f st)) = c_addedNets (m_commit st)
   \<and> c_removedFootprints (m_commit (putFootprint r f st)) = c_removedFootprints (m_commit st)
   \<and> m_addedNets (putFootprint r f st) = m_addedNets st
   \<and> b_zones (m_board (putFootprint r f st)) = b_zones (m_board st)
   \<and> b_tracks (m_board (putFootprint r f st)) = b_tracks (m_board st)"
  by (cases r) (simp_all add: putFootprint_def)

lemma updateComponentPadConnections_passInv:
  assumes committing: "\<not> m_isDryRun opts"
    and pre: "preSync st r"
  shows "passInv (updateComponentPadConnections opts r c st)"
proof -
  let ?f = "getFootprint st r"
  let ?fps = "b_footprints (m_board st)"
  let ?staged = "c_addedFootprints (m_commit st)"
  obtain ps st1 where loop: "padsLoop opts c (fp_reference ?f) r 0 (fp_pads ?f) st = (ps, st1)"
    by (cases "padsLoop opts c (fp_reference ?f) r 0 (fp_pads ?f) st")
  let ?f' = "?f\<lparr>fp_pads := ps\<rparr>"
  let ?st' = "putFootprint r ?f' st1"
  have res: "updateComponentPadConnections opts r c st = ?st'"
    using loop by (simp add: updateComponentPadConnections_def Let_def)
  from pre have wf: "wfRef st r" and staged0: "addedNetsStaged st"
    and bk: "\<forall>f \<in> set ?fps. padsOn (knownNet st) f"
    and sk: "\<forall>f \<in> set ?staged. padsOn (knownNet st) f"
    and sl: "\<forall>k < length ?staged. Staged k \<noteq> r \<longrightarrow> padsOn (liveNet st) (?staged ! k)"
    by (simp_all add: preSync_def)
  have fknown: "padsOn (knownNet st) ?f"
    using wf bk sk by (cases r) (simp_all add: wfRef_def getFootprint_def)
  then have "\<forall>p \<in> set (fp_pads ?f). knownNet st (pad_netname p)"
    by (simp add: padsOn_def)
  from padsLoop_live [OF committing staged0 this loop]
  have pslive: "\<forall>p \<in> set ps. liveNet st1 (pad_netname p)" and staged1: "addedNetsStaged st1"
    by simp_all
  have e: "evolves st st1"
    using evolves_padsLoop [OF loop] .
  note same = padsLoop_footprints [OF loop]
  note fr = putFootprint_frame [of r ?f' st1]
  have k': "knownNet ?st' = knownNet st1"
    by (rule knownNet_cong) (use fr in simp_all)
  have l': "liveNet ?st' = liveNet st1"
    by (rule liveNet_cong) (use fr in simp_all)
  have a': "addedNetsStaged ?st'"
    using staged1 addedNetsStaged_cong [of ?st' st1] fr by simp
  have f'live: "padsOn (liveNet st1) ?f'"
    using pslive by (simp add: padsOn_def)
  have f'known: "padsOn (knownNet st1) ?f'"
    using pslive by (simp add: padsOn_def liveNet_knownNet)
  have bk1: "\<forall>f \<in> set ?fps. padsOn (knownNet st1) f"
    using bk evolves_padsOn_known [OF e] by blast
  have board: "\<forall>f \<in> set (b_footprints (m_board ?st')). padsOn (knownNet st1) f"
  proof (cases r)
    case (OnBoard i)
    have "set (?fps[i := ?f']) \<subseteq> insert ?f' (set ?fps)"
      by (rule set_update_subset_insert)
    with bk1 f'known OnBoard same show ?thesis
      by (auto simp: putFootprint_def)
  next
    case (Staged k)
    with bk1 same show ?thesis
      by (simp add: putFootprint_def)
  qed
  have stagedlive: "\<forall>f \<in> set (c_addedFootprints (m_commit ?st')). padsOn (liveNet st1) f"
  proof (cases r)
    case (OnBoard i)
    have "\<forall>f \<in> set ?staged. padsOn (liveNet st1) f"
    proof
      fix f assume "f \<in> set ?staged"
      then obtain k where "k < length ?staged" "f = ?staged ! k"
        by (auto simp: in_set_conv_nth)
      with sl OnBoard have "padsOn (liveNet st) f" by simp
      then show "padsOn (liveNet st1) f"
        using evolves_padsOn_live [OF e] by blast
    qed
    with OnBoard same show ?thesis
      by (simp add: putFootprint_def)
  next
    case (Staged k)
    show ?thesis
    proof
      fix f assume "f \<in> set (c_addedFootprints (m_commit ?st'))"
      with Staged same have "f \<in> set (?staged[k := ?f'])"
        by (simp add: putFootprint_def)
      then obtain j where j: "j < length ?staged" "f = ?staged[k := ?f'] ! j"
        by (auto simp: in_set_conv_nth)
      show "padsOn (liveNet st1) f"
      proof (cases "j = k")
        case True
        with j f'live show ?thesis by simp
      next
        case False
        with j have "f = ?staged ! j" by simp
        moreover from False Staged have "Staged j \<noteq> r" by simp
        ultimately have "padsOn (liveNet st) f"
          using sl j by simp
        then show ?thesis
          using evolves_padsOn_live [OF e] by blast
      qed
    qed
  qed
  show ?thesis
    unfolding res passInv_def k' l'
    using a' board stagedlive by simp
qed

lemma sync_passInv:
  assumes committing: "\<not> m_isDryRun opts"
    and pre: "preSync st r"
  shows "passInv (updateComponentPadConnections opts r c (updateFootprintParameters opts r c st))"
  by (rule updateComponentPadConnections_passInv [OF committing])
     (rule updateFootprintParameters_preSync [OF pre])

lemma passInv_preSync:
  "passInv st \<Longrightarrow> wfRef st r \<Longrightarrow> preSync st r"
  by (auto simp: passInv_def preSync_def padsOn_def liveNet_knownNet)

lemma passInv_cong:
  assumes "b_footprints (m_board st') = b_footprints (m_board st)"
    and "c_addedFootprints (m_commit st') = c_addedFootprints (m_commit st)"
    and "b_nets (m_board st') = b_nets (m_board st)"
    and "c_addedNets (m_commit st') = c_addedNets (m_commit st)"
    and "m_addedNets st' = m_addedNets st"
  shows "passInv st' = passInv st"
proof -
  have "knownNet st' = knownNet st"
    by (rule knownNet_cong) (use assms in simp_all)
  moreover have "liveNet st' = liveNet st"
    by (rule liveNet_cong) (use assms in simp_all)
  moreover have "addedNetsStaged st' = addedNetsStaged st"
    by (rule addedNetsStaged_cong) (use assms in simp_all)
  ultimately show ?thesis
    using assms by (simp add: passInv_def)
qed

lemma passInv_Report [simp]: "passInv (Report msg sev st) = passInv st"
  by (rule passInv_cong) (simp_all add: Report_def)

lemma passInv_errorCount [simp]: "passInv (st\<lparr>m_errorCount := n\<rparr>) = passInv st"
  by (rule passInv_cong) simp_all

lemma passInv_stage:
  assumes inv: "passInv st" and known: "padsOn (knownNet st) f"
    and fps: "b_footprints (m_board st') = b_footprints (m_board st)"
    and staged: "c_addedFootprints (m_commit st') = c_addedFootprints (m_commit st) @ [f]"
    and nets: "b_nets (m_board st') = b_nets (m_board st)"
    and cnets: "c_addedNets (m_commit st') = c_addedNets (m_commit st)"
    and anets: "m_addedNets st' = m_addedNets st"
  shows "preSync st' (Staged (length (c_addedFootprints (m_commit st))))"
proof -
  have k: "knownNet st' = knownNet st"
    by (rule knownNet_cong) (use nets cnets in simp_all)
  have l: "liveNet st' = liveNet st"
    by (rule liveNet_cong) (use nets cnets in simp_all)
  have a: "addedNetsStaged st' = addedNetsStaged st"
    by (rule addedNetsStaged_cong) (use anets cnets in simp_all)
  from inv have sl: "\<forall>g \<in> set (c_addedFootprints (m_commit st)). padsOn (liveNet st) g"
    and bk: "\<forall>g \<in> set (b_footprints (m_board st)). padsOn (knownNet st) g"
    and ad: "addedNetsStaged st"
    by (simp_all add: passInv_def)
  have sk: "\<forall>g \<in> set (c_addedFootprints (m_commit st)). padsOn (knownNet st) g"
    using sl by (auto simp: padsOn_def liveNet_knownNet)
  show ?thesis
    unfolding preSync_def k l a fps staged
    using ad bk sk sl known
    by (auto simp: wfRef_def staged nth_append)
qed

lemma replaceComponent_passInv:
  assumes committing: "\<not> m_isDryRun opts"
    and exch: "exchangeKeepsNets fr"
    and inv: "passInv st"
    and fi: "fi < length (b_footprints (m_board st))"
    and rep: "replaceComponent opts fr fi c st = (r, st1)"
  shows "case r of None \<Rightarrow> passInv st1 | Some tmp \<Rightarrow> preSync st1 tmp"
proof (cases "c_fpid c = [] \<or> LoadFootprint fr (c_fpid c) = None")
  case True
  with rep have "r = None \<and> (\<exists>msg. st1 = (Report msg RPT_SEVERITY_ERROR st)\<lparr>m_errorCount := m_errorCount st + 1\<rparr>)"
    by (auto simp: replaceComponent_def split: if_splits)
  with inv show ?thesis by auto
next
  case False
  then obtain new where new: "LoadFootprint fr (c_fpid c) = Some new" and ne: "c_fpid c \<noteq> []"
    by auto
  let ?existing = "b_footprints (m_board st) ! fi"
  let ?x = "ExchangeFootprint fr ?existing new"
  from inv fi have "padsOn (knownNet st) ?existing"
    by (simp add: passInv_def)
  with exch have known: "padsOn (knownNet st) ?x"
    unfolding exchangeKeepsNets_def padsOn_def
    by (metis (no_types, lifting) imageE knownNet_def)
  from rep new ne committing
  have r: "r = Some (Staged (length (c_addedFootprints (m_commit st))))"
    and st1: "st1 = (Report (''Change '' @ fp_reference ?existing @ '' footprint from '' @
                          fp_fpid ?existing @ '' to '' @ c_fpid c @ ''.'')
                          RPT_SEVERITY_ACTION st)
        \<lparr>m_newFootprintsCount := m_newFootprintsCount st + 1,
         m_commit := (m_commit st)\<lparr>c_addedFootprints := c_addedFootprints (m_commit st) @ [?x],
             c_removedFootprints := c_removedFootprints (m_commit st) @ [fi]\<rparr>\<rparr>"
    by (simp_all add: replaceComponent_def Let_def Report_def getFootprint_def)
  have "preSync st1 (Staged (length (c_addedFootprints (m_commit st))))"
    by (rule passInv_stage [OF inv known]) (simp_all add: st1 Report_def)
  with r show ?thesis
    by simp
qed

lemma addNewComponent_passInv:
  assumes committing: "\<not> m_isDryRun opts"
    and inv: "passInv st"
    and add: "addNewComponent opts fr c st = (r, st1)"
  shows "case r of None \<Rightarrow> passInv st1 | Some tmp \<Rightarrow> preSync st1 tmp"
proof (cases "c_fpid c = [] \<or> LoadFootprint fr (c_fpid c) = None")
  case True
  with add have "r = None \<and> (\<exists>msg. st1 = (Report msg RPT_SEVERITY_ERROR st)\<lparr>m_errorCount := m_errorCount st + 1\<rparr>)"
    by (auto simp: addNewComponent_def split: if_splits)
  with inv show ?thesis by auto
next
  case False
  then obtain new where new: "LoadFootprint fr (c_fpid c) = Some new" and ne: "c_fpid c \<noteq> []"
    by auto
  let ?x = "new\<lparr>fp_pads := map (\<lambda>pad. pad\<lparr>pad_ratsnestVisible := m_ShowGlobalRatsnest fr,
                                     pad_locked := \<not> m_AddUnlockedPads fr,
                                     pad_netname := []\<rparr>) (fp_pads new)\<rparr>"
  have known: "padsOn (knownNet st) ?x"
    by (auto simp: padsOn_def knownNet_def)
  from add new ne committing
  have r: "r = Some (Staged (length (c_addedFootprints (m_commit st))))"
    and st1: "st1 = (Report (''Add '' @ c_reference c @ '' (footprint '' @ c_fpid c @ '').'')
                       RPT_SEVERITY_ACTION st)
        \<lparr>m_newFootprintsCount := m_newFootprintsCount st + 1,
         m_commit := (m_commit st)\<lparr>c_addedFootprints := c_addedFootprints (m_commit st) @ [?x]\<rparr>\<rparr>"
    by (simp_all add: addNewComponent_def Let_def Report_def)
  have "preSync st1 (Staged (length (c_addedFootprints (m_commit st))))"
    by (rule passInv_stage [OF inv known]) (simp_all add: st1 Report_def)
  with r show ?thesis
    by simp
qed


lemma matchStep_passInv:
  assumes committing: "\<not> m_isDryRun opts"
    and exch: "exchangeKeepsNets fr"
    and inv: "passInv st"
    and fi: "fi < length (b_footprints (m_board st))"
    and step: "matchStep opts fr i c fi (mc, fm, st) = (mc', fm', st')"
  shows "passInv st'"
proof (cases "isMatch opts (getFootprint st (OnBoard fi)) c")
  case False
  with step inv show ?thesis
    by (simp add: matchStep_def Let_def)
next
  case True
  let ?f = "getFootprint st (OnBoard fi)"
  show ?thesis
  proof (cases "m_replaceFootprints opts \<and> c_fpid c \<noteq> fp_fpid ?f")
    case False
    with True step have st': "st' = updateComponentPadConnections opts (OnBoard fi) c
                                  (updateFootprintParameters opts (OnBoard fi) c st)"
      by (auto simp: matchStep_def Let_def)
    have "preSync st (OnBoard fi)"
      by (rule passInv_preSync [OF inv]) (simp add: wfRef_def fi)
    from sync_passInv [OF committing this] st' show ?thesis
      by simp
  next
    case replace: True
    obtain r st1 where rep: "replaceComponent opts fr fi c st = (r, st1)"
      by (cases "replaceComponent opts fr fi c st")
    note post = replaceComponent_passInv [OF committing exch inv fi rep]
    show ?thesis
    proof (cases r)
      case None
      with True replace rep step have "st' = st1"
        by (simp add: matchStep_def Let_def)
      with post None show ?thesis by simp
    next
      case (Some tmp)
      with True replace rep step
      have "st' = updateComponentPadConnections opts tmp c (updateFootprintParameters opts tmp c st1)"
        by (simp add: matchStep_def Let_def)
      moreover from post Some have "preSync st1 tmp" by simp
      ultimately show ?thesis
        using sync_passInv [OF committing] by simp
    qed
  qed
qed

lemma matchLoop_passInv:
  assumes committing: "\<not> m_isDryRun opts"
    and exch: "exchangeKeepsNets fr"
  shows "passInv st \<Longrightarrow> \<forall>fi \<in> set fis. fi < length (b_footprints (m_board st)) \<Longrightarrow>
         matchLoop opts fr lastFp i c fis (mc, fm, st) = (mc', fm', st') \<Longrightarrow> passInv st'"
proof (induction fis arbitrary: mc fm st)
  case Nil
  then show ?case by simp
next
  case (Cons fi fis)
  obtain mc1 fm1 st1 where step: "matchStep opts fr i c fi (mc, fm, st) = (mc1, fm1, st1)"
    by (cases "matchStep opts fr i c fi (mc, fm, st)")
  from Cons.prems(2) have fi: "fi < length (b_footprints (m_board st))"
    by simp
  have inv1: "passInv st1"
    using matchStep_passInv [OF committing exch Cons.prems(1) fi step] .
  have len: "length (b_footprints (m_board st1)) = length (b_footprints (m_board st))"
    using evolves_matchStep [OF step] by (simp add: evolves_def nFootprints_def)
  show ?case
  proof (cases "Some fi = lastFp")
    case True
    with Cons.prems(3) step have "st' = st1"
      by (simp add: Let_def)
    with inv1 show ?thesis by simp
  next
    case False
    with Cons.prems(3) step
    have rest: "matchLoop opts fr lastFp i c fis (mc1, fm1, st1) = (mc', fm', st')"
      by (simp add: Let_def)
    from Cons.prems(2) len have "\<forall>fj \<in> set fis. fj < length (b_footprints (m_board st1))"
      by simp
    from Cons.IH [OF inv1 this rest] show ?thesis .
  qed
qed

lemma processComponent_passInv:
  assumes committing: "\<not> m_isDryRun opts"
    and exch: "exchangeKeepsNets fr"
    and inv: "passInv st"
    and run: "processComponent opts fr lastFp i c (fm, st) = (fm', st')"
  shows "passInv st'"
proof (cases "has_property (c_properties c) ''exclude_from_board''")
  case True
  with run inv show ?thesis
    by (simp add: processComponent_def)
next
  case False
  let ?st0 = "Report (''Processing symbol '' @ c_reference c @ '':'' @ c_fpid c @ ''.'')
                RPT_SEVERITY_INFO st"
  obtain mc fm1 st1 where
    scan: "matchLoop opts fr lastFp i c [0..<length (b_footprints (m_board st))] (0, fm, ?st0) =
             (mc, fm1, st1)"
    by (cases "matchLoop opts fr lastFp i c [0..<length (b_footprints (m_board st))] (0, fm, ?st0)")
  have inv0: "passInv ?st0"
    using inv by simp
  have "\<forall>fi \<in> set [0..<length (b_footprints (m_board st))].
          fi < length (b_footprints (m_board ?st0))"
    by simp
  from matchLoop_passInv [OF committing exch inv0 this scan]
  have inv1: "passInv st1" .
  show ?thesis
  proof (cases "mc = 0")
    case mc0: True
    obtain r st2 where add: "addNewComponent opts fr c st1 = (r, st2)"
      by (cases "addNewComponent opts fr c st1")
    note post = addNewComponent_passInv [OF committing inv1 add]
    show ?thesis
    proof (cases r)
      case None
      with False scan mc0 add run have "st' = st2"
        by (simp add: processComponent_def)
      with post None show ?thesis by simp
    next
      case (Some tmp)
      with False scan mc0 add run
      have "st' = updateComponentPadConnections opts tmp c (updateFootprintParameters opts tmp c st2)"
        by (simp add: processComponent_def)
      moreover from post Some have "preSync st2 tmp" by simp
      ultimately show ?thesis
        using sync_passInv [OF committing] by simp
    qed
  next
    case mcpos: False
    with False scan run
    have "st' = st1 \<or> st' = Report (''Multiple footprints found for '' @ c_reference c @ ''.'')
                               RPT_SEVERITY_ERROR st1"
      by (auto simp: processComponent_def split: if_splits)
    with inv1 show ?thesis
      by auto
  qed
qed

lemma componentsLoop_passInv:
  assumes committing: "\<not> m_isDryRun opts"
    and exch: "exchangeKeepsNets fr"
    and inv: "passInv st"
    and run: "componentsLoop opts fr lastFp i cs (fm, st) = (fm', st')"
  shows "passInv st'"
proof -
  have "passInv (snd (componentsLoop opts fr lastFp i cs (fm, st)))"
  proof (rule componentsLoop_invariant [where P = "\<lambda>s. passInv (snd s)"])
    show "passInv (snd (fm, st))"
      using inv by simp
  next
    fix i' c' and s :: "(nat \<rightharpoonup> fp_ref) \<times> updater"
    assume a: "passInv (snd s)"
    obtain b1 st1 where s: "s = (b1, st1)" by (cases s)
    obtain b2 st2 where t: "processComponent opts fr lastFp i' c' (b1, st1) = (b2, st2)"
      by (cases "processComponent opts fr lastFp i' c' (b1, st1)")
    from processComponent_passInv [OF committing exch _ t] a s t
    show "passInv (snd (processComponent opts fr lastFp i' c' s))"
      by simp
  qed
  with run show ?thesis by simp
qed

lemma quiet_refl [simp]: "quiet st st"
  by (simp add: quiet_def)

lemma quiet_trans: "quiet a b \<Longrightarrow> quiet b c \<Longrightarrow> quiet a c"
  by (simp add: quiet_def)

lemma quiet_Report [simp]: "quiet st (Report msg sev st)"
  by (simp add: quiet_def Report_def)

lemma quiet_evolves: "quiet st st' \<Longrightarrow> evolves st st'"
  by (simp add: quiet_def evolves_def nFootprints_def)

lemma quiet_passInv: "quiet st st' \<Longrightarrow> passInv st' = passInv st"
  by (rule passInv_cong) (simp_all add: quiet_def)

lemma quiet_warn [simp]: "quiet st ((Report msg sev st)\<lparr>m_warningCount := n\<rparr>)"
  by (simp add: quiet_def Report_def)

lemma quiet_snd_viaNet: "quiet st (snd (viaNet opts names v st))"
  by (simp add: viaNet_def Let_def)

lemma quiet_snd_zoneNet: "quiet st (snd (zoneNet opts names k z st))"
  by (simp add: zoneNet_def Let_def)

lemma quiet_viaNet: "viaNet opts names v st = (v', st') \<Longrightarrow> quiet st st'"
  using quiet_snd_viaNet [of st opts names v] by simp

lemma quiet_zoneNet: "zoneNet opts names k z st = (z', st') \<Longrightarrow> quiet st st'"
  using quiet_snd_zoneNet [of st opts names k z] by simp

lemma quiet_viasLoop: "viasLoop opts names vs st = (vs', st') \<Longrightarrow> quiet st st'"
proof (induction vs arbitrary: st vs' st')
  case Nil
  then show ?case by simp
next
  case (Cons v vs)
  obtain v1 st1 where one: "viaNet opts names v st = (v1, st1)"
    by (cases "viaNet opts names v st")
  obtain vs2 st2 where rest: "viasLoop opts names vs st1 = (vs2, st2)"
    by (cases "viasLoop opts names vs st1")
  from Cons.prems one rest have "st' = st2" by simp
  with quiet_viaNet [OF one] Cons.IH [OF rest] show ?case
    using quiet_trans by blast
qed

lemma quiet_zonesLoop: "zonesLoop opts names k zs st = (zs', st') \<Longrightarrow> quiet st st'"
proof (induction zs arbitrary: k st zs' st')
  case Nil
  then show ?case by simp
next
  case (Cons z zs)
  obtain z1 st1 where one: "zoneNet opts names k z st = (z1, st1)"
    by (cases "zoneNet opts names k z st")
  obtain zs2 st2 where rest: "zonesLoop opts names (Suc k) zs st1 = (zs2, st2)"
    by (cases "zonesLoop opts names (Suc k) zs st1")
  from Cons.prems one rest have "st' = st2" by simp
  with quiet_zoneNet [OF one] Cons.IH [OF rest] show ?case
    using quiet_trans by blast
qed

lemma quiet_updateCopperZoneNets: "quiet st (updateCopperZoneNets opts nl st)"
proof -
  let ?names = "netlistNetnames nl"
  obtain vias st1 where v: "viasLoop opts ?names (b_tracks (m_board st)) st = (vias, st1)"
    by (cases "viasLoop opts ?names (b_tracks (m_board st)) st")
  let ?st2 = "st1\<lparr>m_board := (m_board st1)\<lparr>b_tracks := vias\<rparr>\<rparr>"
  obtain zones st3 where z: "zonesLoop opts ?names 0 (b_zones (m_board ?st2)) ?st2 = (zones, st3)"
    by (cases "zonesLoop opts ?names 0 (b_zones (m_board ?st2)) ?st2")
  have res: "updateCopperZoneNets opts nl st = st3\<lparr>m_board := (m_board st3)\<lparr>b_zones := zones\<rparr>\<rparr>"
    unfolding updateCopperZoneNets_def Let_def v prod.case z ..
  have "quiet st st1"
    using quiet_viasLoop [OF v] .
  moreover have "quiet st1 ?st2"
    by (simp add: quiet_def)
  moreover have "quiet ?st2 st3"
    using quiet_zonesLoop [OF z] .
  moreover have "quiet st3 (st3\<lparr>m_board := (m_board st3)\<lparr>b_zones := zones\<rparr>\<rparr>)"
    by (simp add: quiet_def)
  ultimately show ?thesis
    unfolding res using quiet_trans by blast
qed

lemma quiet_testPins: "quiet st (testPins c f nets st)"
proof (induction nets arbitrary: st)
  case Nil
  then show ?case by simp
next
  case (Cons n nets)
  let ?st1 = "(Report (c_reference c @ '' pad '' @ cn_pinName n @ '' not found in '' @
                       fp_fpid f @ ''.'') RPT_SEVERITY_ERROR st)\<lparr>m_errorCount := m_errorCount st + 1\<rparr>"
  show ?case
  proof (cases "FindPadByName f (cn_pinName n)")
    case True
    then have eq: "testPins c f (n # nets) st = testPins c f nets st"
      by simp
    show ?thesis
      unfolding eq by (rule Cons.IH)
  next
    case False
    then have eq: "testPins c f (n # nets) st = testPins c f nets ?st1"
      by simp
    have q: "quiet st ?st1"
      by (simp add: quiet_def Report_def)
    show ?thesis
      unfolding eq by (rule quiet_trans [OF q Cons.IH])
  qed
qed

lemma quiet_testComponents: "quiet st (testComponents fm i cs st)"
proof (induction cs arbitrary: i st)
  case Nil
  then show ?case by simp
next
  case (Cons c cs)
  show ?case
  proof (cases "fm i")
    case None
    then have eq: "testComponents fm i (c # cs) st = testComponents fm (Suc i) cs st"
      by simp
    show ?thesis
      unfolding eq by (rule Cons.IH)
  next
    case (Some r)
    let ?st1 = "testPins c (getFootprint st r) (c_nets c) st"
    from Some have eq: "testComponents fm i (c # cs) st = testComponents fm (Suc i) cs ?st1"
      by simp
    show ?thesis
      unfolding eq by (rule quiet_trans [OF quiet_testPins Cons.IH])
  qed
qed

lemma quiet_testConnectivity: "quiet st (testConnectivity nl fm st)"
  by (simp add: testConnectivity_def quiet_testComponents)

lemma b_nets_markPadNets:
  "b_nets (markPadNets ps b) = fold (\<lambda>p. markCurrent (pad_netname p)) ps (b_nets b)"
  unfolding markPadNets_def
  by (induction ps arbitrary: b) (simp_all add: SetIsCurrent_def)

lemma markPadNets_frame:
  "b_footprints (markPadNets ps b) = b_footprints b
   \<and> b_zones (markPadNets ps b) = b_zones b \<and> b_tracks (markPadNets ps b) = b_tracks b"
  unfolding markPadNets_def
  by (induction ps arbitrary: b) (simp_all add: SetIsCurrent_def)

lemma fold_markCurrent_grows:
  "list_all2 netGrows ns (fold (\<lambda>p. markCurrent (pad_netname p)) ps ns)"
proof (induction ps arbitrary: ns)
  case Nil
  then show ?case by simp
next
  case (Cons p ps)
  have "list_all2 netGrows ns (markCurrent (pad_netname p) ns)"
    by (rule list_all2_markCurrent)
  moreover have "list_all2 netGrows (markCurrent (pad_netname p) ns)
      (fold (\<lambda>p. markCurrent (pad_netname p)) ps (markCurrent (pad_netname p) ns))"
    by (rule Cons.IH)
  ultimately have "list_all2 netGrows ns
      (fold (\<lambda>p. markCurrent (pad_netname p)) ps (markCurrent (pad_netname p) ns))"
    by (rule list_all2_trans [rotated]) (rule netGrows_trans)
  then show ?case by simp
qed

lemma markCurrent_names: "map net_name (markCurrent n ns) = map net_name ns"
  by (induction ns) simp_all

lemma fold_markCurrent_marks:
  "p \<in> set ps \<Longrightarrow> pad_netname p \<in> net_name ` set ns \<Longrightarrow>
   \<exists>y \<in> set (fold (\<lambda>p. markCurrent (pad_netname p)) ps ns).
      net_name y = pad_netname p \<and> net_isCurrent y"
proof (induction ps arbitrary: ns)
  case Nil
  then show ?case by simp
next
  case (Cons q ps)
  let ?ns1 = "markCurrent (pad_netname q) ns"
  show ?case
  proof (cases "p = q")
    case True
    from markCurrent_live [OF Cons.prems(2)] True
    obtain x where x: "x \<in> set ?ns1" "net_name x = pad_netname p" "net_isCurrent x"
      by auto
    from netGrows_current [OF fold_markCurrent_grows [of ?ns1 ps] x(1) x(3)] x(2)
    show ?thesis by auto
  next
    case False
    with Cons.prems(1) have "p \<in> set ps" by simp
    moreover have "pad_netname p \<in> net_name ` set ?ns1"
    proof -
      have "net_name ` set ?ns1 = set (map net_name ?ns1)" by simp
      also have "\<dots> = set (map net_name ns)" by (simp only: markCurrent_names)
      finally show ?thesis using Cons.prems(2) by simp
    qed
    ultimately show ?thesis
      using Cons.IH [of ?ns1] by simp
  qed
qed

lemma sweepStep_frame:
  "b_footprints (m_board (sweepStep opts nl fi st)) = b_footprints (m_board st)
   \<and> c_addedFootprints (m_commit (sweepStep opts nl fi st)) = c_addedFootprints (m_commit st)
   \<and> c_addedNets (m_commit (sweepStep opts nl fi st)) = c_addedNets (m_commit st)
   \<and> m_addedNets (sweepStep opts nl fi st) = m_addedNets st
   \<and> set (c_removedFootprints (m_commit st)) \<subseteq>
       set (c_removedFootprints (m_commit (sweepStep opts nl fi st)))"
  by (simp add: sweepStep_def Let_def Report_def markPadNets_frame subset_insertI)

lemma sweepStep_nets:
  "list_all2 netGrows (b_nets (m_board st)) (b_nets (m_board (sweepStep opts nl fi st)))"
  by (simp add: sweepStep_def Let_def Report_def b_nets_markPadNets fold_markCurrent_grows)

lemma sweepStep_marks:
  "\<not> m_isDryRun opts \<Longrightarrow>
   fi \<in> set (c_removedFootprints (m_commit (sweepStep opts nl fi st)))
   \<or> b_nets (m_board (sweepStep opts nl fi st)) =
       fold (\<lambda>p. markCurrent (pad_netname p)) (fp_pads (b_footprints (m_board st) ! fi))
         (b_nets (m_board st))"
  by (simp add: sweepStep_def Let_def Report_def b_nets_markPadNets getFootprint_def)

lemma evolves_sweepStep: "evolves st (sweepStep opts nl fi st)"
  using sweepStep_frame [of opts nl fi st] sweepStep_nets [of st opts nl fi]
  by (simp add: evolves_def nFootprints_def)


lemma passInv_evolves:
  assumes inv: "passInv st" and e: "evolves st st'"
    and fps: "b_footprints (m_board st') = b_footprints (m_board st)"
    and staged: "c_addedFootprints (m_commit st') = c_addedFootprints (m_commit st)"
    and cnets: "c_addedNets (m_commit st') = c_addedNets (m_commit st)"
    and anets: "m_addedNets st' = m_addedNets st"
  shows "passInv st'"
proof -
  have a: "addedNetsStaged st' = addedNetsStaged st"
    by (rule addedNetsStaged_cong) (use anets cnets in simp_all)
  from inv have "\<forall>f \<in> set (b_footprints (m_board st)). padsOn (knownNet st') f"
    using evolves_padsOn_known [OF e] by (simp add: passInv_def)
  moreover from inv have "\<forall>f \<in> set (c_addedFootprints (m_commit st)). padsOn (liveNet st') f"
    using evolves_padsOn_live [OF e] by (simp add: passInv_def)
  moreover from inv have "addedNetsStaged st'"
    unfolding a by (simp add: passInv_def)
  ultimately show ?thesis
    unfolding passInv_def fps staged by simp
qed

lemma passInv_sweepStep: "passInv st \<Longrightarrow> passInv (sweepStep opts nl fi st)"
  using sweepStep_frame [of opts nl fi st]
  by (intro passInv_evolves [OF _ evolves_sweepStep]) simp_all

lemma sweptLive_sweepStep:
  assumes committing: "\<not> m_isDryRun opts"
    and inv: "passInv st"
    and k: "k < length (b_footprints (m_board st))"
    and swept: "sweptLive k st"
  shows "sweptLive (Suc k) (sweepStep opts nl k st)"
proof -
  let ?st' = "sweepStep opts nl k st"
  let ?fps = "b_footprints (m_board st)"
  note fr = sweepStep_frame [of opts nl k st]
  have e: "evolves st ?st'"
    by (rule evolves_sweepStep)
  have "fi \<in> set (c_removedFootprints (m_commit ?st')) \<or> padsOn (liveNet ?st') (?fps ! fi)"
    if fi: "fi < Suc k" for fi
  proof (cases "fi = k")
    case False
    with fi have "fi < k" by simp
    with swept have "fi \<in> set (c_removedFootprints (m_commit st)) \<or> padsOn (liveNet st) (?fps ! fi)"
      by (simp add: sweptLive_def)
    then show ?thesis
      using fr evolves_padsOn_live [OF e] by blast
  next
    case True
    show ?thesis
    proof (cases "k \<in> set (c_removedFootprints (m_commit ?st'))")
      case True
      with \<open>fi = k\<close> show ?thesis by simp
    next
      case False
      with sweepStep_marks [OF committing, of k nl st]
      have nets: "b_nets (m_board ?st') =
          fold (\<lambda>p. markCurrent (pad_netname p)) (fp_pads (?fps ! k)) (b_nets (m_board st))"
        by simp
      from inv k have known: "padsOn (knownNet st) (?fps ! k)"
        by (simp add: passInv_def)
      have "liveNet ?st' (pad_netname p)" if p: "p \<in> set (fp_pads (?fps ! k))" for p
      proof -
        from known p have "knownNet st (pad_netname p)"
          by (simp add: padsOn_def)
        then consider "pad_netname p = []"
          | "pad_netname p \<in> net_name ` set (b_nets (m_board st))"
          | "pad_netname p \<in> net_name ` set (c_addedNets (m_commit st))"
          by (auto simp: knownNet_def)
        then show ?thesis
        proof cases
          case 1
          then show ?thesis by (simp add: liveNet_def)
        next
          case 2
          from fold_markCurrent_marks [OF p 2] show ?thesis
            unfolding liveNet_def nets by blast
        next
          case 3
          with fr show ?thesis by (simp add: liveNet_def)
        qed
      qed
      then have "padsOn (liveNet ?st') (?fps ! k)"
        by (simp add: padsOn_def)
      with \<open>fi = k\<close> show ?thesis by simp
    qed
  qed
  then show ?thesis
    unfolding sweptLive_def using fr by simp
qed

lemma fold_sweepStep:
  assumes committing: "\<not> m_isDryRun opts"
  shows "passInv st \<Longrightarrow> k \<le> length (b_footprints (m_board st)) \<Longrightarrow>
         passInv (fold (sweepStep opts nl) [0..<k] st)
         \<and> sweptLive k (fold (sweepStep opts nl) [0..<k] st)
         \<and> evolves st (fold (sweepStep opts nl) [0..<k] st)
         \<and> b_footprints (m_board (fold (sweepStep opts nl) [0..<k] st)) = b_footprints (m_board st)
         \<and> c_addedFootprints (m_commit (fold (sweepStep opts nl) [0..<k] st)) =
             c_addedFootprints (m_commit st)"
proof (induction k)
  case 0
  then show ?case by (simp add: sweptLive_def)
next
  case (Suc k)
  let ?st1 = "fold (sweepStep opts nl) [0..<k] st"
  from Suc have ih: "passInv ?st1" "sweptLive k ?st1" "evolves st ?st1"
    "b_footprints (m_board ?st1) = b_footprints (m_board st)"
    "c_addedFootprints (m_commit ?st1) = c_addedFootprints (m_commit st)"
    by simp_all
  have step: "fold (sweepStep opts nl) [0..<Suc k] st = sweepStep opts nl k ?st1"
    by simp
  from Suc.prems ih(4) have k: "k < length (b_footprints (m_board ?st1))"
    by simp
  note fr = sweepStep_frame [of opts nl k ?st1]
  have "passInv (sweepStep opts nl k ?st1)"
    by (rule passInv_sweepStep [OF ih(1)])
  moreover have "sweptLive (Suc k) (sweepStep opts nl k ?st1)"
    by (rule sweptLive_sweepStep [OF committing ih(1) k ih(2)])
  moreover have "evolves st (sweepStep opts nl k ?st1)"
    by (rule evolves_trans [OF ih(3) evolves_sweepStep])
  ultimately show ?case
    unfolding step using fr ih(4,5) by simp
qed

lemma sweepLoop_keptLive:
  assumes committing: "\<not> m_isDryRun opts" and inv: "passInv st"
  shows "passInv (sweepLoop opts nl st) \<and> keptLive (sweepLoop opts nl st)
       \<and> evolves st (sweepLoop opts nl st)"
proof -
  let ?n = "length (b_footprints (m_board st))"
  let ?st' = "fold (sweepStep opts nl) [0..<?n] st"
  from fold_sweepStep [OF committing inv, of ?n nl]
  have res: "passInv ?st'" "sweptLive ?n ?st'" "evolves st ?st'"
    "b_footprints (m_board ?st') = b_footprints (m_board st)"
    by simp_all
  have "keptLive ?st'"
    unfolding keptLive_def res(4) using res(2) by (simp add: sweptLive_def res(4))
  with res show ?thesis
    by (simp add: sweepLoop_def)
qed

lemma sameNets_refl [simp]: "sameNets st st"
  by (simp add: sameNets_def)

lemma sameNets_trans: "sameNets a b \<Longrightarrow> sameNets b c \<Longrightarrow> sameNets a c"
  by (simp add: sameNets_def)

lemma sameNets_evolves: "sameNets st st' \<Longrightarrow> evolves st st'"
  by (simp add: sameNets_def evolves_def nFootprints_def)

lemma sameNets_Report [simp]: "sameNets st (Report msg sev st)"
  by (simp add: sameNets_def Report_def)

lemma settled_Report [simp]: "settled (Report msg sev st) = settled st"
proof -
  have "liveNet (Report msg sev st) = liveNet st"
    by (rule liveNet_cong) simp_all
  then show ?thesis
    by (simp add: settled_def keptLive_def)
qed

lemma padsOn_update:
  "padsOn P f \<Longrightarrow> P (pad_netname p) \<Longrightarrow> padsOn P (f\<lparr>fp_pads := (fp_pads f)[j := p]\<rparr>)"
proof -
  assume a: "padsOn P f" and b: "P (pad_netname p)"
  have "set ((fp_pads f)[j := p]) \<subseteq> insert p (set (fp_pads f))"
    by (rule set_update_subset_insert)
  with a b show ?thesis
    by (auto simp: padsOn_def)
qed

lemma SetNetCodeUnconnected_settled:
  assumes "settled st"
  shows "settled (SetNetCodeUnconnected pr st) \<and> sameNets st (SetNetCodeUnconnected pr st)"
proof -
  obtain r j where pr: "pr = (r, j)" by (cases pr)
  let ?f = "getFootprint st r"
  let ?p = "(fp_pads ?f ! j)\<lparr>pad_netname := []\<rparr>"
  let ?f' = "?f\<lparr>fp_pads := (fp_pads ?f)[j := ?p]\<rparr>"
  let ?st' = "putFootprint r ?f' st"
  have res: "SetNetCodeUnconnected pr st = ?st'"
    by (simp add: SetNetCodeUnconnected_def putPad_def getPad_def pr Let_def)
  note fr = putFootprint_frame [of r ?f' st]
  have l: "liveNet ?st' = liveNet st"
    by (rule liveNet_cong) (use fr in simp_all)
  have empty: "liveNet st (pad_netname ?p)"
    by (simp add: liveNet_def)
  from assms have kept: "keptLive st"
    and staged: "\<forall>f \<in> set (c_addedFootprints (m_commit st)). padsOn (liveNet st) f"
    by (simp_all add: settled_def)
  show ?thesis
  proof (cases r)
    case (OnBoard i)
    let ?fps = "b_footprints (m_board st)"
    have fps': "b_footprints (m_board ?st') = ?fps[i := ?f']"
      and st': "c_addedFootprints (m_commit ?st') = c_addedFootprints (m_commit st)"
      using OnBoard by (simp_all add: putFootprint_def)
    have "keptLive ?st'"
      unfolding keptLive_def l fps'
    proof (intro allI impI)
      fix fi assume fi: "fi < length (?fps[i := ?f'])"
      show "fi \<in> set (c_removedFootprints (m_commit ?st')) \<or> padsOn (liveNet st) (?fps[i := ?f'] ! fi)"
      proof (cases "fi \<in> set (c_removedFootprints (m_commit st))")
        case True
        with fr show ?thesis by simp
      next
        case False
        with kept fi have live: "padsOn (liveNet st) (?fps ! fi)"
          by (auto simp: keptLive_def)
        show ?thesis
        proof (cases "fi = i")
          case True
          with live OnBoard have "padsOn (liveNet st) ?f"
            by (simp add: getFootprint_def)
          from padsOn_update [OF this empty] True fi show ?thesis
            by simp
        next
          case False
          with live show ?thesis by simp
        qed
      qed
    qed
    moreover have "sameNets st ?st'"
      using fr fps' st' by (simp add: sameNets_def)
    ultimately show ?thesis
      unfolding res settled_def l st' using staged by simp
  next
    case (Staged k)
    let ?sg = "c_addedFootprints (m_commit st)"
    have fps': "b_footprints (m_board ?st') = b_footprints (m_board st)"
      and st': "c_addedFootprints (m_commit ?st') = ?sg[k := ?f']"
      using Staged by (simp_all add: putFootprint_def)
    have "keptLive ?st'"
      using kept fr unfolding keptLive_def l fps' by simp
    moreover have "\<forall>f \<in> set (?sg[k := ?f']). padsOn (liveNet st) f"
    proof
      fix f assume "f \<in> set (?sg[k := ?f'])"
      then obtain m where m: "m < length ?sg" "f = ?sg[k := ?f'] ! m"
        by (auto simp: in_set_conv_nth)
      show "padsOn (liveNet st) f"
      proof (cases "m = k")
        case True
        with m staged Staged have "padsOn (liveNet st) ?f"
          by (simp add: getFootprint_def)
        from padsOn_update [OF this empty] True m show ?thesis
          by simp
      next
        case False
        with m staged show ?thesis by simp
      qed
    qed
    moreover have "sameNets st ?st'"
      using fr fps' st' by (simp add: sameNets_def)
    ultimately show ?thesis
      unfolding res settled_def l st' by simp
  qed
qed

lemma endOfNet_settled:
  assumes committing: "\<not> m_isDryRun opts" and s: "settled st"
  shows "settled (endOfNet opts pp st) \<and> sameNets st (endOfNet opts pp st)"
proof (cases "zoneOnNet (m_board st) (getNetname opts st pp)")
  case True
  with s show ?thesis
    by (simp add: endOfNet_def)
next
  case False
  let ?st1 = "Report (''Remove single pad net '' @ getNetname opts st pp @ ''.'')
                RPT_SEVERITY_ACTION st"
  from False committing have res: "endOfNet opts pp st = SetNetCodeUnconnected pp ?st1"
    by (simp add: endOfNet_def)
  from s have "settled ?st1" by simp
  from SetNetCodeUnconnected_settled [OF this, of pp]
  show ?thesis
    unfolding res using sameNets_trans [OF sameNets_Report] by blast
qed

lemma singlePadScan_invariant:
  assumes step: "\<And>pp s. P s \<Longrightarrow> P (endOfNet opts pp s)"
  shows "P st \<Longrightarrow> P (snd (snd (snd (singlePadScan opts pads (count, netname, prev, st)))))"
proof (induction pads arbitrary: count netname prev st)
  case Nil
  then show ?case by simp
next
  case (Cons pad pads)
  show ?case
  proof (cases "getNetname opts st pad = []")
    case True
    with Cons.IH [OF Cons.prems] show ?thesis by simp
  next
    case False
    show ?thesis
    proof (cases "netname \<noteq> getNetname opts st pad")
      case same: False
      with False Cons.IH [OF Cons.prems] show ?thesis by simp
    next
      case True
      let ?st1 = "case prev of Some pp \<Rightarrow> if count = 1 then endOfNet opts pp st else st | None \<Rightarrow> st"
      have "P ?st1"
        using Cons.prems step by (simp split: option.split)
      from Cons.IH [OF this] False True show ?thesis
        by (simp add: Let_def)
    qed
  qed
qed

lemma deleteSinglePadNets_settled:
  assumes committing: "\<not> m_isDryRun opts" and s: "settled st"
  shows "settled (deleteSinglePadNets opts st) \<and> sameNets st (deleteSinglePadNets opts st)"
proof -
  let ?P = "\<lambda>s. settled s \<and> sameNets st s"
  let ?padlist = "sort_key (getNetname opts st) (GetPads (m_board st))"
  obtain count netname prev st1 where
    scan: "singlePadScan opts ?padlist (0, [], None, st) = (count, netname, prev, st1)"
    by (cases "singlePadScan opts ?padlist (0, [], None, st)")
  have "?P (snd (snd (snd (singlePadScan opts ?padlist (0, [], None, st)))))"
  proof (rule singlePadScan_invariant)
    show "?P st" using s by simp
  next
    fix pp s' assume "?P s'"
    with endOfNet_settled [OF committing, of s' pp]
    show "?P (endOfNet opts pp s')"
      using sameNets_trans by blast
  qed
  with scan have p1: "settled st1" "sameNets st st1"
    by simp_all
  from scan committing
  have "deleteSinglePadNets opts st = st1
      \<or> deleteSinglePadNets opts st = SetNetCodeUnconnected (the prev) st1"
    by (simp add: deleteSinglePadNets_def Let_def)
  with p1 SetNetCodeUnconnected_settled [OF p1(1), of "the prev"] show ?thesis
    using sameNets_trans by metis
qed

lemma settled_quiet: "quiet st st' \<Longrightarrow> settled st \<Longrightarrow> settled st'"
proof -
  assume q: "quiet st st'" and s: "settled st"
  have "liveNet st' = liveNet st"
    by (rule liveNet_cong) (use q in \<open>simp_all add: quiet_def\<close>)
  with q s show ?thesis
    by (simp add: settled_def keptLive_def quiet_def)
qed

lemma reportUnusedNets_frame:
  "m_board (reportUnusedNets st) = m_board st \<and> m_commit (reportUnusedNets st) = m_commit st"
proof -
  have "m_board (fold (\<lambda>net s. if \<not> net_isCurrent net
                    then Report (''Remove unused net '' @ net_name net @ ''.'') RPT_SEVERITY_ACTION s
                    else s) ns s0) = m_board s0
      \<and> m_commit (fold (\<lambda>net s. if \<not> net_isCurrent net
                    then Report (''Remove unused net '' @ net_name net @ ''.'') RPT_SEVERITY_ACTION s
                    else s) ns s0) = m_commit s0" for ns s0
    by (induction ns arbitrary: s0) simp_all
  then show ?thesis
    by (simp add: reportUnusedNets_def)
qed

lemma set_fold_AppendNet:
  "set ns \<subseteq> set (fold (\<lambda>n nets. AppendNet nets n) added ns)
   \<and> net_name ` set added \<subseteq> net_name ` set (fold (\<lambda>n nets. AppendNet nets n) added ns)"
proof (induction added arbitrary: ns)
  case Nil
  then show ?case by simp
next
  case (Cons a added)
  let ?ns1 = "AppendNet ns a"
  have one: "set ns \<subseteq> set ?ns1" "net_name a \<in> net_name ` set ?ns1"
    by (auto simp: AppendNet_def)
  from Cons.IH [of ?ns1] one show ?case
    by auto
qed

lemma set_keptFootprints:
  "f \<in> set (keptFootprints removed fps) \<Longrightarrow> \<exists>i < length fps. i \<notin> set removed \<and> f = fps ! i"
proof -
  assume "f \<in> set (keptFootprints removed fps)"
  then obtain i where "(i, f) \<in> set (zip [0..<length fps] fps)" "i \<notin> set removed"
    by (auto simp: keptFootprints_def)
  then show ?thesis
    by (auto simp: in_set_zip)
qed

lemma liveNet_final:
  assumes "liveNet st n"
  shows "n = [] \<or> n \<in> net_name ` set (b_nets (m_board (Push (removeStaleNets st))))"
proof -
  let ?final = "fold (\<lambda>n nets. AppendNet nets n) (c_addedNets (m_commit st))
                  (filter net_isCurrent (b_nets (m_board st)))"
  have nets: "b_nets (m_board (Push (removeStaleNets st))) = ?final"
    using reportUnusedNets_frame [of st]
    by (simp add: Push_def removeStaleNets_def RemoveUnusedNets_def)
  note sub = set_fold_AppendNet [of "filter net_isCurrent (b_nets (m_board st))"
                "c_addedNets (m_commit st)"]
  from assms consider "n = []"
    | x where "x \<in> set (b_nets (m_board st))" "net_name x = n" "net_isCurrent x"
    | "n \<in> net_name ` set (c_addedNets (m_commit st))"
    by (auto simp: liveNet_def)
  then show ?thesis
  proof cases
    case 1
    then show ?thesis by simp
  next
    case 2
    then have "x \<in> set (filter net_isCurrent (b_nets (m_board st)))"
      by simp
    with sub have "x \<in> set ?final" by blast
    with 2 show ?thesis
      unfolding nets by blast
  next
    case 3
    with sub show ?thesis
      unfolding nets by blast
  qed
qed

lemma settled_final:
  assumes s: "settled st"
    and f: "f \<in> set (b_footprints (m_board (Push (removeStaleNets st))))"
    and p: "p \<in> set (fp_pads f)"
  shows "pad_netname p = []
       \<or> pad_netname p \<in> net_name ` set (b_nets (m_board (Push (removeStaleNets st))))"
proof -
  have fps: "b_footprints (m_board (Push (removeStaleNets st))) =
      keptFootprints (c_removedFootprints (m_commit st)) (b_footprints (m_board st)) @
      c_addedFootprints (m_commit st)"
    using reportUnusedNets_frame [of st]
    by (simp add: Push_def removeStaleNets_def RemoveUnusedNets_def)
  from f have "padsOn (liveNet st) f"
    unfolding fps
  proof (simp, elim disjE)
    assume "f \<in> set (keptFootprints (c_removedFootprints (m_commit st)) (b_footprints (m_board st)))"
    from set_keptFootprints [OF this] s show ?thesis
      by (auto simp: settled_def keptLive_def)
  next
    assume "f \<in> set (c_addedFootprints (m_commit st))"
    with s show ?thesis
      by (simp add: settled_def)
  qed
  with p have "liveNet st (pad_netname p)"
    by (simp add: padsOn_def)
  then show ?thesis
    by (rule liveNet_final)
qed

lemma current_final:
  assumes "x \<in> set (b_nets (m_board st))" and "net_isCurrent x"
  shows "x \<in> set (b_nets (m_board (Push (removeStaleNets st))))"
proof -
  have nets: "b_nets (m_board (Push (removeStaleNets st))) =
      fold (\<lambda>n nets. AppendNet nets n) (c_addedNets (m_commit st))
                  (filter net_isCurrent (b_nets (m_board st)))"
    using reportUnusedNets_frame [of st]
    by (simp add: Push_def removeStaleNets_def RemoveUnusedNets_def)
  from assms have "x \<in> set (filter net_isCurrent (b_nets (m_board st)))"
    by simp
  with set_fold_AppendNet [of "filter net_isCurrent (b_nets (m_board st))"
                "c_addedNets (m_commit st)"]
  show ?thesis
    unfolding nets by blast
qed

lemma evolves_sentinel:
  assumes e: "evolves st st'" and x: "x \<in> set (b_nets (m_board st))" and c: "net_isCurrent x"
  shows "x \<in> set (b_nets (m_board st'))"
proof -
  from e have "list_all2 netGrows (b_nets (m_board st)) (b_nets (m_board st'))"
    by (simp add: evolves_def)
  from netGrows_current [OF this x c]
  obtain y where y: "y \<in> set (b_nets (m_board st'))" "net_name y = net_name x"
    "net_code y = net_code x" "net_isCurrent y"
    by blast
  with c have "y = x"
    by (simp add: netinfo.equality)
  with y show ?thesis by simp
qed

lemma cacheZones_addedNets [simp]: "m_addedNets (cacheZones k zs st) = m_addedNets st"
  by (induction zs arbitrary: k st) simp_all

lemma beginPass_committing:
  assumes committing: "\<not> m_isDryRun opts"
  shows "b_footprints (m_board (beginPass opts st)) = b_footprints (m_board st)
       \<and> b_nets (m_board (beginPass opts st)) =
           map (\<lambda>net. net\<lparr>net_isCurrent := (net_code net = 0)\<rparr>) (b_nets (m_board st))
       \<and> m_commit (beginPass opts st) = m_commit st
       \<and> m_addedNets (beginPass opts st) = m_addedNets st"
  using committing
  by (simp add: beginPass_def Let_def cacheCopperZoneConnections_def markStale_def)

lemma beginPass_passInv:
  assumes committing: "\<not> m_isDryRun opts"
    and wf: "\<forall>f \<in> set (b_footprints b). \<forall>p \<in> set (fp_pads f).
               pad_netname p = [] \<or> pad_netname p \<in> net_name ` set (b_nets b)"
  shows "passInv (beginPass opts (new_updater b))"
proof -
  let ?st = "beginPass opts (new_updater b)"
  have nu: "m_board (new_updater b) = b" "m_commit (new_updater b) = new_commit"
    "m_addedNets (new_updater b) = Map.empty"
    by (simp_all add: new_updater_def)
  note fr = beginPass_committing [OF committing, of "new_updater b", unfolded nu]
  from fr have fps: "b_footprints (m_board ?st) = b_footprints b"
    and nets: "b_nets (m_board ?st) =
                 map (\<lambda>net. net\<lparr>net_isCurrent := (net_code net = 0)\<rparr>) (b_nets b)"
    and com: "m_commit ?st = new_commit" and added: "m_addedNets ?st = Map.empty"
    by simp_all
  have "map net_name (b_nets (m_board ?st)) = map net_name (b_nets b)"
    unfolding nets by (simp add: comp_def)
  then have names: "net_name ` set (b_nets (m_board ?st)) = net_name ` set (b_nets b)"
    unfolding image_set by simp
  have "addedNetsStaged ?st"
    by (simp add: addedNetsStaged_def added)
  moreover have "\<forall>f \<in> set (b_footprints (m_board ?st)). padsOn (knownNet ?st) f"
    unfolding padsOn_def knownNet_def names fps using wf by blast
  moreover have "c_addedFootprints (m_commit ?st) = []"
    by (simp add: com new_commit_def)
  ultimately show ?thesis
    by (simp add: passInv_def)
qed

text \<open>
  Claim C2, as stated, at the board with the resistor R1 whose pad is the only pad of net N1
  and the netlist that binds that pin to N1. After the committing pass N1 (net code 1, not
  the unconnected net) is still in the registry, but no pad is bound to it: the single-pad
  pruning unbound the pad after the net had been marked current.
\<close>

theorem net_without_pads_is_retained:
  "map net_name (b_nets (m_board
       (UpdateNetlist default_options noLibrary [compR1] (new_updater boardR1)))) = [[], ''N1'']
   \<and> map net_code (b_nets (m_board
       (UpdateNetlist default_options noLibrary [compR1] (new_updater boardR1)))) = [0, 1]
   \<and> map (map pad_netname \<circ> fp_pads) (b_footprints (m_board
       (UpdateNetlist default_options noLibrary [compR1] (new_updater boardR1)))) = [[[]]]"
  by code_simp

text \<open>
  Claim C2, amended. After a committing pass from a freshly constructed updater, on a board
  whose pads are on nets of its registry and with a frame whose footprint exchange keeps to
  the nets of the replaced footprint, every net bound to a pad of a footprint of the board
  is in the registry, and every net of code 0 is still there and marked current. (The
  converse is not promised: a net may stay in the registry with no pad bound to it.)
\<close>

theorem bound_nets_are_retained:
  assumes committing: "\<not> m_isDryRun opts"
    and exch: "exchangeKeepsNets fr"
    and wf: "\<forall>f \<in> set (b_footprints b). \<forall>p \<in> set (fp_pads f).
               pad_netname p = [] \<or> pad_netname p \<in> net_name ` set (b_nets b)"
  shows "(\<forall>f \<in> set (b_footprints (m_board (UpdateNetlist opts fr nl (new_updater b)))).
            \<forall>p \<in> set (fp_pads f).
              pad_netname p = []
              \<or> pad_netname p \<in>
                  net_name ` set (b_nets (m_board (UpdateNetlist opts fr nl (new_updater b)))))
       \<and> (\<forall>x \<in> set (b_nets b). net_code x = 0 \<longrightarrow>
            x\<lparr>net_isCurrent := True\<rparr> \<in>
              set (b_nets (m_board (UpdateNetlist opts fr nl (new_updater b)))))"
proof -
  let ?st0 = "new_updater b"
  let ?st3 = "beginPass opts ?st0"
  obtain fm st4 where
    loop: "componentsLoop opts fr (lastPreexisting (m_board ?st0)) 0 nl (Map.empty, ?st3) = (fm, st4)"
    by (cases "componentsLoop opts fr (lastPreexisting (m_board ?st0)) 0 nl (Map.empty, ?st3)")
  let ?st5 = "updateCopperZoneNets opts nl st4"
  let ?st6 = "sweepLoop opts nl ?st5"
  let ?st6a = "testConnectivity nl fm ?st6"
  let ?st7 = "if m_deleteSinglePadNets opts then deleteSinglePadNets opts ?st6a else ?st6a"
  let ?end = "Push (removeStaleNets ?st7)"
  have res: "m_board (UpdateNetlist opts fr nl ?st0) = m_board ?end"
    using loop committing by (simp add: UpdateNetlist_def sweepPass_def endPass_def)
  have inv3: "passInv ?st3"
    by (rule beginPass_passInv [OF committing wf])
  have inv4: "passInv st4"
    by (rule componentsLoop_passInv [OF committing exch inv3 loop])
  have q5: "quiet st4 ?st5"
    by (rule quiet_updateCopperZoneNets)
  have inv5: "passInv ?st5"
    using quiet_passInv [OF q5] inv4 by simp
  note sweep = sweepLoop_keptLive [OF committing inv5, of nl]
  have s6: "settled ?st6"
    using sweep by (simp add: settled_def passInv_def)
  have q6: "quiet ?st6 ?st6a"
    by (rule quiet_testConnectivity)
  have s6a: "settled ?st6a"
    by (rule settled_quiet [OF q6 s6])
  have s7: "settled ?st7" and e7: "evolves ?st6a ?st7"
    using deleteSinglePadNets_settled [OF committing s6a] s6a sameNets_evolves
    by (simp_all split: if_splits)
  have e: "evolves ?st3 ?st7"
  proof -
    have e4: "evolves ?st3 st4"
      by (rule evolves_componentsLoop [OF loop])
    have e5: "evolves st4 ?st5"
      by (rule quiet_evolves [OF q5])
    have e6: "evolves ?st5 ?st6"
      using sweep by simp
    have e6a: "evolves ?st6 ?st6a"
      by (rule quiet_evolves [OF q6])
    show ?thesis
      by (rule evolves_trans [OF evolves_trans [OF evolves_trans [OF evolves_trans
            [OF e4 e5] e6] e6a] e7])
  qed
  have pads: "\<forall>f \<in> set (b_footprints (m_board ?end)). \<forall>p \<in> set (fp_pads f).
      pad_netname p = [] \<or> pad_netname p \<in> net_name ` set (b_nets (m_board ?end))"
    using settled_final [OF s7] by blast
  have sentinel: "x\<lparr>net_isCurrent := True\<rparr> \<in> set (b_nets (m_board ?end))"
    if x: "x \<in> set (b_nets b)" and code: "net_code x = 0" for x
  proof -
    have "b_nets (m_board ?st3) = map (\<lambda>net. net\<lparr>net_isCurrent := (net_code net = 0)\<rparr>) (b_nets b)"
      using beginPass_committing [OF committing, of ?st0] by (simp add: new_updater_def)
    with x code have "x\<lparr>net_isCurrent := True\<rparr> \<in> set (b_nets (m_board ?st3))"
      by force
    from evolves_sentinel [OF e this] have "x\<lparr>net_isCurrent := True\<rparr> \<in> set (b_nets (m_board ?st7))"
      by simp
    then show ?thesis
      by (rule current_final) simp
  qed
  show ?thesis
    unfolding res using pads sentinel by blast
qed

theorem bound_nets_are_retained_witness:
  "pad_netname (hd (fp_pads (hd (b_footprints (m_board
      (UpdateNetlist keepSinglePadNets resettingLibrary netlistN2 (new_updater boardR1)))))))
     = ''N2''
   \<and> ''N2'' \<in> net_name ` set (b_nets (m_board
          (UpdateNetlist keepSinglePadNets resettingLibrary netlistN2 (new_updater boardR1))))
   \<and> unconnectedNet \<in> set (b_nets (m_board
          (UpdateNetlist keepSinglePadNets resettingLibrary netlistN2 (new_updater boardR1))))"
proof -
  let ?run = "UpdateNetlist keepSinglePadNets resettingLibrary netlistN2 (new_updater boardR1)"
  have h1: "\<not> m_isDryRun keepSinglePadNets"
    by (simp add: keepSinglePadNets_def default_options_def)
  have h2: "exchangeKeepsNets resettingLibrary"
    by (simp add: exchangeKeepsNets_def resettingLibrary_def)
  have h3: "\<forall>f \<in> set (b_footprints boardR1). \<forall>p \<in> set (fp_pads f).
              pad_netname p = [] \<or> pad_netname p \<in> net_name ` set (b_nets boardR1)"
    by (simp add: boardR1_def mkFootprint_def mkPad_def)
  have h4: "unconnectedNet \<in> set (b_nets boardR1)" "net_code unconnectedNet = 0"
    "unconnectedNet\<lparr>net_isCurrent := True\<rparr> = unconnectedNet"
    by (simp_all add: boardR1_def unconnectedNet_def)
  have fps: "b_footprints (m_board ?run) \<noteq> []"
    by code_simp
  have pads: "fp_pads (hd (b_footprints (m_board ?run))) \<noteq> []"
    by code_simp
  have net: "pad_netname (hd (fp_pads (hd (b_footprints (m_board ?run))))) = ''N2''"
    by code_simp
  note retained = bound_nets_are_retained [OF h1 h2 h3, of netlistN2]
  from retained have "\<forall>f \<in> set (b_footprints (m_board ?run)). \<forall>p \<in> set (fp_pads f).
      pad_netname p = [] \<or> pad_netname p \<in> net_name ` set (b_nets (m_board ?run))"
    by (rule conjunct1)
  with hd_in_set [OF fps] hd_in_set [OF pads]
  have "pad_netname (hd (fp_pads (hd (b_footprints (m_board ?run))))) = []
      \<or> pad_netname (hd (fp_pads (hd (b_footprints (m_board ?run)))))
          \<in> net_name ` set (b_nets (m_board ?run))"
    by blast
  with net have bound: "''N2'' \<in> net_name ` set (b_nets (m_board ?run))"
    by simp
  from retained have "\<forall>x \<in> set (b_nets boardR1). net_code x = 0 \<longrightarrow>
      x\<lparr>net_isCurrent := True\<rparr> \<in> set (b_nets (m_board ?run))"
    by (rule conjunct2)
  with h4 have "unconnectedNet \<in> set (b_nets (m_board ?run))"
    by metis
  with net bound show ?thesis
    by simp
qed

end
